theory Spec2Isabelle
  imports Complex_Main
begin

section \<open>Counting loops\<close>

text \<open>
  Every loop of the engine has the shape \<^verbatim>\<open>for (let c = c0; c < bound; c++) body\<close>
  with a bound that the body does not change. The counter starts at 0 and is only
  incremented, so it is a natural number; the bound is a JavaScript number read from
  a layer size or a length and may be non-positive, so it is an integer.
  \<open>forLoop\<close> threads the loop's state through the iterations; \<open>forLoopE\<close> does the
  same for a body that may throw (\<open>Inl\<close>), and stops at the first exception.
\<close>

datatype error =
    TypeError    \<comment> \<open>thrown by JavaScript when a property of \<open>undefined\<close> is read\<close>
  | RangeError   \<comment> \<open>thrown by \<^verbatim>\<open>Array(n)\<close> for a negative \<open>n\<close>\<close>
  | NotANumber   \<comment> \<open>\<open>undefined\<close> entered an arithmetic operation: the source goes on with NaN\<close>

function forLoop :: "nat \<Rightarrow> int \<Rightarrow> (nat \<Rightarrow> 's \<Rightarrow> 's) \<Rightarrow> 's \<Rightarrow> 's" where
  "forLoop c bound body s =
     (if int c < bound then forLoop (Suc c) bound body (body c s) else s)"
  by pat_completeness auto
termination
  by (relation "measure (\<lambda>(c, bound, body, s). nat (bound - int c))") auto

function forLoopE :: "nat \<Rightarrow> int \<Rightarrow> (nat \<Rightarrow> 's \<Rightarrow> 'e + 's) \<Rightarrow> 's \<Rightarrow> 'e + 's" where
  "forLoopE c bound body s =
     (if int c < bound
      then (case body c s of Inl e \<Rightarrow> Inl e | Inr s' \<Rightarrow> forLoopE (Suc c) bound body s')
      else Inr s)"
  by pat_completeness auto
termination
  by (relation "measure (\<lambda>(c, bound, body, s). nat (bound - int c))") auto

declare forLoop.simps [simp del] forLoopE.simps [simp del]

section \<open>The engine: \<^verbatim>\<open>src/utils/SimpleNeuralNet.ts\<close>\<close>

text \<open>
  JavaScript numbers are modelled as mathematical reals (\<open>Math.sin\<close>, \<open>Math.exp\<close> and
  \<open>Math.sqrt\<close> as \<open>sin\<close>, \<open>exp\<close> and \<open>sqrt\<close>): the model has no rounding, no
  infinities and no NaN. Layer sizes are integers, so that a zero or negative size can
  be given to the constructor as in the source; a size with a fraction is outside the
  model.
\<close>

record SimpleNeuralNet =
  weights :: "real list list list"   \<comment> \<open>[Layer][InputNodeIndex][OutputNodeIndex]\<close>
  biases :: "real list list"         \<comment> \<open>[Layer][NodeIndex]\<close>
  layerSizes :: "int list"

text \<open>
  \<^verbatim>\<open>initializeWeights\<close> pushes one weight matrix and one bias vector per layer transition
  onto the fields of \<open>this\<close>; \<open>initializeLayer\<close> is the body of its outer loop, and
  \<open>generateBiases\<close>, \<open>generateWeights\<close> and \<open>generateNodeWeights\<close> are the loops
  inside it. \<open>layerSizes\<close> is not assigned in the loop, so the bound
  \<^verbatim>\<open>this.layerSizes.length - 1\<close> is the same at every test, and the reads
  \<open>layerSizes this ! i\<close> and \<open>layerSizes this ! (i + 1)\<close> are below the length.
\<close>

definition generateBiases :: "int \<Rightarrow> real list" where
  "generateBiases outputSize =
     forLoop 0 outputSize (\<lambda>b layerBiases. layerBiases @ [- 0.1]) []"

definition generateNodeWeights :: "nat \<Rightarrow> nat \<Rightarrow> int \<Rightarrow> int \<Rightarrow> real list" where
  "generateNodeWeights i j inputSize outputSize =
     forLoop 0 outputSize (\<lambda>k nodeWeights.
       let seed = int i * 1000 + int j * 100 + int k;
           val = sin (real_of_int seed) * 2 - 1
       in nodeWeights @ [val / sqrt (real_of_int inputSize)]) []"

definition generateWeights :: "nat \<Rightarrow> int \<Rightarrow> int \<Rightarrow> real list list" where
  "generateWeights i inputSize outputSize =
     forLoop 0 inputSize (\<lambda>j layerWeights.
       layerWeights @ [generateNodeWeights i j inputSize outputSize]) []"

definition initializeLayer :: "nat \<Rightarrow> SimpleNeuralNet \<Rightarrow> SimpleNeuralNet" where
  "initializeLayer i this =
     (let inputSize = layerSizes this ! i;
          outputSize = layerSizes this ! (i + 1);
          layerBiases = generateBiases outputSize;
          layerWeights = generateWeights i inputSize outputSize
      in this\<lparr>weights := weights this @ [layerWeights],
              biases := biases this @ [layerBiases]\<rparr>)"

definition initializeWeights :: "SimpleNeuralNet \<Rightarrow> SimpleNeuralNet" where
  "initializeWeights this =
     forLoop 0 (int (length (layerSizes this)) - 1) initializeLayer this"

definition new_SimpleNeuralNet :: "int \<Rightarrow> int list \<Rightarrow> int \<Rightarrow> SimpleNeuralNet" where
  "new_SimpleNeuralNet inputSize hiddenSizes outputSize =
     initializeWeights
       \<lparr>weights = [], biases = [], layerSizes = [inputSize] @ hiddenSizes @ [outputSize]\<rparr>"

definition sigmoid :: "real \<Rightarrow> real" where
  "sigmoid x = 1 / (1 + exp (- x))"

text \<open>
  An array read that the source makes: \<open>None\<close> is JavaScript's \<open>undefined\<close> for an
  index beyond the end.
\<close>

definition elemAt :: "'a list \<Rightarrow> nat \<Rightarrow> 'a option" where
  "elemAt xs i = (if i < length xs then Some (xs ! i) else None)"

text \<open>
  \<^verbatim>\<open>sum += currentActivations[inIdx] * layerW[inIdx][outIdx]\<close> (the running sum is
  \<open>acc\<close> here): reading a row that
  \<open>layerW\<close> does not have throws; a missing entry of an existing row is \<open>undefined\<close>
  and turns the sum into NaN.
\<close>

definition dotStep :: "real list \<Rightarrow> real list list \<Rightarrow> nat \<Rightarrow> nat \<Rightarrow> real \<Rightarrow> error + real" where
  "dotStep currentActivations layerW outIdx inIdx acc =
     (case elemAt layerW inIdx of
        None \<Rightarrow> Inl TypeError
      | Some row \<Rightarrow>
          (case elemAt row outIdx of
             None \<Rightarrow> Inl NotANumber
           | Some w \<Rightarrow> Inr (acc + currentActivations ! inIdx * w)))"

text \<open>
  The body of the loop over the output nodes, up to the push: the sum starts at
  \<^verbatim>\<open>layerB[outIdx]\<close>, where \<open>layerB\<close> is \<open>None\<close> if \<^verbatim>\<open>this.biases[i]\<close> is \<open>undefined\<close>.
\<close>

definition nodeActivation :: "real list \<Rightarrow> real list list \<Rightarrow> real list option \<Rightarrow> nat
    \<Rightarrow> error + real" where
  "nodeActivation currentActivations layerW layerB outIdx =
     (case layerB of
        None \<Rightarrow> Inl TypeError
      | Some bs \<Rightarrow>
          (case elemAt bs outIdx of
             None \<Rightarrow> Inl NotANumber
           | Some b \<Rightarrow>
               (case forLoopE 0 (int (length currentActivations))
                       (dotStep currentActivations layerW outIdx) b of
                  Inl e \<Rightarrow> Inl e
                | Inr acc \<Rightarrow> Inr (sigmoid acc))))"

definition nodeStep :: "real list \<Rightarrow> real list list \<Rightarrow> real list option \<Rightarrow> nat \<Rightarrow> real list
    \<Rightarrow> error + real list" where
  "nodeStep currentActivations layerW layerB outIdx nextActivations =
     (case nodeActivation currentActivations layerW layerB outIdx of
        Inl e \<Rightarrow> Inl e
      | Inr v \<Rightarrow> Inr (nextActivations @ [v]))"

definition layerStep :: "SimpleNeuralNet \<Rightarrow> nat \<Rightarrow> real list list \<times> real list
    \<Rightarrow> error + real list list \<times> real list" where
  "layerStep this i st =
     (case st of (activations, currentActivations) \<Rightarrow>
        let layerW = weights this ! i;
            layerB = elemAt (biases this) i;
            outputCount = (case elemAt (layerSizes this) (i + 1) of None \<Rightarrow> 0 | Some n \<Rightarrow> n)
        in (case forLoopE 0 outputCount (nodeStep currentActivations layerW layerB) [] of
              Inl e \<Rightarrow> Inl e
            | Inr nextActivations \<Rightarrow>
                Inr (activations @ [nextActivations], nextActivations)))"

text \<open>
  \<^verbatim>\<open>forwardPropagate\<close> returns the activations of all layers, or throws. Layer 0 is a
  copy of the inputs. \<open>weights this ! i\<close> is read for \<open>i < length (weights this)\<close>
  only; a missing \<open>layerSizes\<close> entry makes the test \<^verbatim>\<open>outIdx < undefined\<close> false,
  which is the bound 0.
\<close>

definition forwardPropagate :: "SimpleNeuralNet \<Rightarrow> real list \<Rightarrow> error + real list list" where
  "forwardPropagate this inputs =
     (case forLoopE 0 (int (length (weights this))) (layerStep this) ([inputs], inputs) of
        Inl e \<Rightarrow> Inl e
      | Inr (activations, currentActivations) \<Rightarrow> Inr activations)"

definition getLayerConfig :: "SimpleNeuralNet \<Rightarrow> int list" where
  "getLayerConfig this = layerSizes this"

definition neuralNetEngine :: SimpleNeuralNet where
  "neuralNetEngine = new_SimpleNeuralNet 64 [16, 12] 10"

section \<open>The composition of the displayed activations: \<^verbatim>\<open>src/components/NeuralNetworkViz.tsx\<close>\<close>

text \<open>
  The first effect of the component computes the network state from the two props
  \<open>inputActivations\<close> and \<open>probabilities\<close> (\<open>None\<close> is \<^verbatim>\<open>null\<close>); the model returns
  the value the effect hands to \<^verbatim>\<open>setActivations\<close>. \<^verbatim>\<open>Array(size).fill(0)\<close> throws for
  a negative size.
\<close>

definition zeroState :: "int list \<Rightarrow> error + real list list" where
  "zeroState sizes =
     (if list_all (\<lambda>size. 0 \<le> size) sizes
      then Inr (map (\<lambda>size. replicate (nat size) 0) sizes)
      else Inl RangeError)"

definition computeNetworkState :: "real list \<Rightarrow> real list option \<Rightarrow> error + real list list" where
  "computeNetworkState inputActivations probabilities =
     (if length inputActivations = 64
      then (case forwardPropagate neuralNetEngine inputActivations of
              Inl e \<Rightarrow> Inl e
            | Inr calculatedActivations \<Rightarrow>
                (case probabilities of
                   None \<Rightarrow> Inr calculatedActivations
                 | Some p \<Rightarrow>
                     if length p = 10
                     then Inr (calculatedActivations[length calculatedActivations - 1 := p])
                     else Inr calculatedActivations))
      else zeroState (getLayerConfig neuralNetEngine))"

section \<open>Closed forms\<close>

text \<open>
  The values the loops compute, written without loops; the lemmas below relate them
  to the engine. \<open>weightValue i j k inputSize\<close> is the weight from node \<open>j\<close> of
  layer \<open>i\<close> to node \<open>k\<close> of layer \<open>i + 1\<close>.
\<close>

definition weightValue :: "nat \<Rightarrow> nat \<Rightarrow> nat \<Rightarrow> int \<Rightarrow> real" where
  "weightValue i j k inputSize =
     (sin (real_of_int (int i * 1000 + int j * 100 + int k)) * 2 - 1) / sqrt (real_of_int inputSize)"

text \<open>The shape every constructed engine has.\<close>

definition wellShaped :: "SimpleNeuralNet \<Rightarrow> bool" where
  "wellShaped this \<longleftrightarrow>
     length (biases this) = length (weights this) \<and>
     length (layerSizes this) = Suc (length (weights this)) \<and>
     (\<forall>i < length (weights this).
        length (weights this ! i) = nat (layerSizes this ! i) \<and>
        length (biases this ! i) = nat (layerSizes this ! (i + 1)) \<and>
        (\<forall>j < length (weights this ! i).
           length (weights this ! i ! j) = nat (layerSizes this ! (i + 1))))"

definition weightedSum :: "real list \<Rightarrow> real list list \<Rightarrow> real \<Rightarrow> nat \<Rightarrow> real" where
  "weightedSum cur W b k = fold (\<lambda>j acc. acc + cur ! j * (W ! j ! k)) [0..<length cur] b"

definition layerValues :: "real list \<Rightarrow> real list list \<Rightarrow> real list \<Rightarrow> int \<Rightarrow> real list" where
  "layerValues cur W B n = map (\<lambda>k. sigmoid (weightedSum cur W (B ! k) k)) [0..<nat n]"

fun activationsFrom :: "SimpleNeuralNet \<Rightarrow> nat list \<Rightarrow> real list \<Rightarrow> real list list" where
  "activationsFrom this [] cur = []"
| "activationsFrom this (i # is) cur =
     (let nxt = layerValues cur (weights this ! i) (biases this ! i) (layerSizes this ! (i + 1))
      in nxt # activationsFrom this is nxt)"

section \<open>The engine in a store\<close>

text \<open>
  JavaScript arrays are objects with identity: \<^verbatim>\<open>push\<close> changes the array that every
  holder of the reference sees. To state what \<^verbatim>\<open>forwardPropagate\<close> changes and what
  its result shares, the engine is modelled a second time over an explicit store: a
  list of cells, where an address is an index and allocation appends. The numbers are
  computed by the same functions as above (\<open>nodeActivation\<close>); the loops here are the
  loops of the source with every allocation and every \<^verbatim>\<open>push\<close> written out.
\<close>

type_synonym addr = nat

datatype cell =
    Numbers "real list"   \<comment> \<open>a \<^verbatim>\<open>number[]\<close> of activations, biases or weights\<close>
  | Sizes "int list"      \<comment> \<open>the \<^verbatim>\<open>number[]\<close> of layer sizes\<close>
  | Refs "addr list"      \<comment> \<open>an array of arrays\<close>

type_synonym store = "cell list"

definition alloc :: "cell \<Rightarrow> store \<Rightarrow> addr \<times> store" where
  "alloc c h = (length h, h @ [c])"

text \<open>
  The reads return the empty array for an address that holds no array of the kind
  read, and a push onto such an address starts from the empty array; the typed source
  never makes such a read or push.
\<close>

definition numbersAt :: "store \<Rightarrow> addr \<Rightarrow> real list" where
  "numbersAt h a = (case elemAt h a of Some (Numbers xs) \<Rightarrow> xs | _ \<Rightarrow> [])"

definition sizesAt :: "store \<Rightarrow> addr \<Rightarrow> int list" where
  "sizesAt h a = (case elemAt h a of Some (Sizes ns) \<Rightarrow> ns | _ \<Rightarrow> [])"

definition refsAt :: "store \<Rightarrow> addr \<Rightarrow> addr list" where
  "refsAt h a = (case elemAt h a of Some (Refs rs) \<Rightarrow> rs | _ \<Rightarrow> [])"

definition pushNumber :: "addr \<Rightarrow> real \<Rightarrow> store \<Rightarrow> store" where
  "pushNumber a v h = h[a := Numbers (numbersAt h a @ [v])]"

definition pushRef :: "addr \<Rightarrow> addr \<Rightarrow> store \<Rightarrow> store" where
  "pushRef a r h = h[a := Refs (refsAt h a @ [r])]"

text \<open>
  The object: its three fields are assigned in the constructor and nowhere else, so
  the object is the record of the three references.
\<close>

record SimpleNeuralNet_s =
  weightsRef :: addr
  biasesRef :: addr
  layerSizesRef :: addr

definition generateBiases_s :: "addr \<Rightarrow> int \<Rightarrow> store \<Rightarrow> store" where
  "generateBiases_s layerBiases outputSize h =
     forLoop 0 outputSize (\<lambda>b h. pushNumber layerBiases (- 0.1) h) h"

definition generateNodeWeights_s :: "nat \<Rightarrow> nat \<Rightarrow> int \<Rightarrow> int \<Rightarrow> store \<Rightarrow> addr \<times> store" where
  "generateNodeWeights_s i j inputSize outputSize h =
     (case alloc (Numbers []) h of (nodeWeights, h1) \<Rightarrow>
        (nodeWeights,
         forLoop 0 outputSize (\<lambda>k h.
           let seed = int i * 1000 + int j * 100 + int k;
               val = sin (real_of_int seed) * 2 - 1
           in pushNumber nodeWeights (val / sqrt (real_of_int inputSize)) h) h1))"

definition generateWeights_s :: "addr \<Rightarrow> nat \<Rightarrow> int \<Rightarrow> int \<Rightarrow> store \<Rightarrow> store" where
  "generateWeights_s layerWeights i inputSize outputSize h =
     forLoop 0 inputSize (\<lambda>j h.
       case generateNodeWeights_s i j inputSize outputSize h of (nodeWeights, h') \<Rightarrow>
         pushRef layerWeights nodeWeights h') h"

definition initializeLayer_s :: "SimpleNeuralNet_s \<Rightarrow> nat \<Rightarrow> store \<Rightarrow> store" where
  "initializeLayer_s this i h =
     (let inputSize = sizesAt h (layerSizesRef this) ! i;
          outputSize = sizesAt h (layerSizesRef this) ! (i + 1)
      in case alloc (Refs []) h of (layerWeights, h1) \<Rightarrow>
         case alloc (Numbers []) h1 of (layerBiases, h2) \<Rightarrow>
           let h3 = generateBiases_s layerBiases outputSize h2;
               h4 = generateWeights_s layerWeights i inputSize outputSize h3;
               h5 = pushRef (weightsRef this) layerWeights h4
           in pushRef (biasesRef this) layerBiases h5)"

definition initializeWeights_s :: "SimpleNeuralNet_s \<Rightarrow> store \<Rightarrow> store" where
  "initializeWeights_s this h =
     forLoop 0 (int (length (sizesAt h (layerSizesRef this))) - 1) (initializeLayer_s this) h"

definition new_SimpleNeuralNet_s :: "int \<Rightarrow> int list \<Rightarrow> int \<Rightarrow> store
    \<Rightarrow> SimpleNeuralNet_s \<times> store" where
  "new_SimpleNeuralNet_s inputSize hiddenSizes outputSize h =
     (case alloc (Sizes ([inputSize] @ hiddenSizes @ [outputSize])) h of (l, h1) \<Rightarrow>
      case alloc (Refs []) h1 of (w, h2) \<Rightarrow>
      case alloc (Refs []) h2 of (b, h3) \<Rightarrow>
        let this = \<lparr>weightsRef = w, biasesRef = b, layerSizesRef = l\<rparr>
        in (this, initializeWeights_s this h3))"

text \<open>
  \<^verbatim>\<open>forwardPropagate\<close> takes the reference to the input array. An exception leaves
  the store as it is at the throw, so the thrown value is paired with the store. The
  arrays are read from the store at every iteration, as the source reads them through
  its references; the bound \<^verbatim>\<open>this.weights.length\<close> is read when the loop starts.
\<close>

definition nodeStep_s :: "addr \<Rightarrow> addr \<Rightarrow> addr option \<Rightarrow> addr \<Rightarrow> nat \<Rightarrow> store
    \<Rightarrow> error \<times> store + store" where
  "nodeStep_s currentActivations layerW layerB nextActivations outIdx h =
     (case nodeActivation (numbersAt h currentActivations) (map (numbersAt h) (refsAt h layerW))
             (map_option (numbersAt h) layerB) outIdx of
        Inl e \<Rightarrow> Inl (e, h)
      | Inr v \<Rightarrow> Inr (pushNumber nextActivations v h))"

definition layerStep_s :: "SimpleNeuralNet_s \<Rightarrow> addr \<Rightarrow> nat \<Rightarrow> addr \<times> store
    \<Rightarrow> error \<times> store + addr \<times> store" where
  "layerStep_s this activations i st =
     (case st of (currentActivations, h) \<Rightarrow>
        case alloc (Numbers []) h of (nextActivations, h1) \<Rightarrow>
          let layerW = refsAt h1 (weightsRef this) ! i;
              layerB = elemAt (refsAt h1 (biasesRef this)) i;
              outputCount = (case elemAt (sizesAt h1 (layerSizesRef this)) (i + 1) of
                               None \<Rightarrow> 0 | Some n \<Rightarrow> n)
          in (case forLoopE 0 outputCount
                     (nodeStep_s currentActivations layerW layerB nextActivations) h1 of
                Inl e \<Rightarrow> Inl e
              | Inr h2 \<Rightarrow> Inr (nextActivations, pushRef activations nextActivations h2)))"

definition forwardPropagate_s :: "SimpleNeuralNet_s \<Rightarrow> addr \<Rightarrow> store \<Rightarrow> (error + addr) \<times> store" where
  "forwardPropagate_s this inputs h =
     (case alloc (Refs []) h of (activations, h1) \<Rightarrow>
      case alloc (Numbers (numbersAt h1 inputs)) h1 of (layer0, h2) \<Rightarrow>
        let h3 = pushRef activations layer0 h2
        in (case forLoopE 0 (int (length (refsAt h3 (weightsRef this))))
                   (layerStep_s this activations) (inputs, h3) of
              Inl (e, h') \<Rightarrow> (Inl e, h')
            | Inr (currentActivations, h') \<Rightarrow> (Inr activations, h')))"

definition getLayerConfig_s :: "SimpleNeuralNet_s \<Rightarrow> addr" where
  "getLayerConfig_s this = layerSizesRef this"

text \<open>What a reference to a \<^verbatim>\<open>number[][]\<close> and an engine hold in a store.\<close>

definition matrixAt :: "store \<Rightarrow> addr \<Rightarrow> real list list" where
  "matrixAt h a = map (numbersAt h) (refsAt h a)"

definition engineAt :: "store \<Rightarrow> SimpleNeuralNet_s \<Rightarrow> SimpleNeuralNet" where
  "engineAt h this =
     \<lparr>weights = map (matrixAt h) (refsAt h (weightsRef this)),
      biases = matrixAt h (biasesRef this),
      layerSizes = sizesAt h (layerSizesRef this)\<rparr>"

text \<open>
  The result of a call read out of a store: the thrown value, or the arrays the
  returned reference leads to.
\<close>

definition snapshotAt :: "store \<Rightarrow> error + addr \<Rightarrow> error + real list list" where
  "snapshotAt h r = (case r of Inl e \<Rightarrow> Inl e | Inr a \<Rightarrow> Inr (matrixAt h a))"

text \<open>
  Invariants of the proofs. \<open>layerCells\<close> are the cells one layer transition adds to
  the store at address \<open>p\<close>; \<open>ownedEngine lo h this\<close> says that the three arrays of the
  engine lie below \<open>lo\<close> and everything they refer to lies from \<open>lo\<close> on;
  \<open>engineClosed\<close> says that everything the engine refers to is in the store;
  \<open>snapshotFresh h ht\<close> says that \<open>ht\<close> still starts with \<open>h\<close>, that the cell at
  \<open>length h\<close> is the snapshot array, and that it refers to at least one array and
  only to distinct arrays of numbers allocated after it;
  \<open>snapshotHolds\<close> relates a state of the propagation loop in the store to the state
  of the same loop over values.
\<close>

definition layerCells :: "nat \<Rightarrow> nat \<Rightarrow> int \<Rightarrow> int \<Rightarrow> cell list" where
  "layerCells p i inputSize outputSize =
     [Refs [p + 2..<p + 2 + nat inputSize], Numbers (generateBiases outputSize)]
     @ map (\<lambda>j. Numbers (generateNodeWeights i j inputSize outputSize)) [0..<nat inputSize]"

definition ownedEngine :: "nat \<Rightarrow> store \<Rightarrow> SimpleNeuralNet_s \<Rightarrow> bool" where
  "ownedEngine lo h this \<longleftrightarrow>
     weightsRef this < lo \<and> biasesRef this < lo \<and> layerSizesRef this < lo \<and>
     weightsRef this \<noteq> biasesRef this \<and> weightsRef this \<noteq> layerSizesRef this \<and>
     biasesRef this \<noteq> layerSizesRef this \<and> lo \<le> length h \<and>
     (\<exists>ws bs ls.
        elemAt h (weightsRef this) = Some (Refs ws) \<and>
        elemAt h (biasesRef this) = Some (Refs bs) \<and>
        elemAt h (layerSizesRef this) = Some (Sizes ls) \<and>
        set ws \<subseteq> {lo..<length h} \<and> set bs \<subseteq> {lo..<length h} \<and>
        (\<forall>m \<in> set ws. set (refsAt h m) \<subseteq> {lo..<length h}))"

definition engineClosed :: "store \<Rightarrow> SimpleNeuralNet_s \<Rightarrow> bool" where
  "engineClosed h this \<longleftrightarrow>
     weightsRef this < length h \<and> biasesRef this < length h \<and> layerSizesRef this < length h \<and>
     set (refsAt h (weightsRef this)) \<subseteq> {..<length h} \<and>
     set (refsAt h (biasesRef this)) \<subseteq> {..<length h} \<and>
     (\<forall>m \<in> set (refsAt h (weightsRef this)). set (refsAt h m) \<subseteq> {..<length h})"

definition snapshotFresh :: "store \<Rightarrow> store \<Rightarrow> bool" where
  "snapshotFresh h ht \<longleftrightarrow>
     take (length h) ht = h \<and> length h + 2 \<le> length ht \<and>
     elemAt ht (length h) = Some (Refs (refsAt ht (length h))) \<and>
     refsAt ht (length h) \<noteq> [] \<and>
     set (refsAt ht (length h)) \<subseteq> {Suc (length h)..<length ht} \<and>
     distinct (refsAt ht (length h)) \<and>
     (\<forall>l \<in> set (refsAt ht (length h)). elemAt ht l = Some (Numbers (numbersAt ht l)))"

definition snapshotHolds :: "store \<Rightarrow> addr \<times> store \<Rightarrow> real list list \<times> real list \<Rightarrow> bool" where
  "snapshotHolds h st pst \<longleftrightarrow>
     (case st of (cur, ht) \<Rightarrow> case pst of (acts, curv) \<Rightarrow>
        take (length h) ht = h \<and> length h < length ht \<and> cur < length ht \<and> cur \<noteq> length h \<and>
        numbersAt ht cur = curv \<and> matrixAt ht (length h) = acts \<and>
        set (refsAt ht (length h)) \<subseteq> {..<length ht} - {length h})"

section \<open>What the loops compute\<close>

text \<open>A counting loop is a fold over the counter's values.\<close>

lemma forLoop_fold: "forLoop c bound body s = fold body [c..<nat bound] s"
proof (induction c bound body s rule: forLoop.induct)
  case (1 c bound body s)
  show ?case
  proof (cases "int c < bound")
    case True
    then have "c < nat bound" by linarith
    then have "[c..<nat bound] = c # [Suc c..<nat bound]" by (simp add: upt_conv_Cons)
    with True 1 show ?thesis by (subst forLoop.simps) simp
  next
    case False
    then have "nat bound \<le> c" by linarith
    with False show ?thesis by (subst forLoop.simps) simp
  qed
qed

lemma fold_push: "fold (\<lambda>c s. s @ [g c]) xs s = s @ map g xs"
  by (induction xs arbitrary: s) auto

lemma forLoop_push: "forLoop c bound (\<lambda>c s. s @ [g c]) s = s @ map g [c..<nat bound]"
  by (simp add: forLoop_fold fold_push)

text \<open>
  A loop whose body returns \<open>g c s\<close> on every state that satisfies an invariant
  returns the fold of \<open>g\<close>.
\<close>

lemma forLoopE_fold_inv:
  assumes "P c s"
    and "\<And>c' s'. c \<le> c' \<Longrightarrow> int c' < bound \<Longrightarrow> P c' s' \<Longrightarrow>
           body c' s' = Inr (g c' s') \<and> P (Suc c') (g c' s')"
  shows "forLoopE c bound body s = Inr (fold g [c..<nat bound] s)"
  using assms
proof (induction c bound body s rule: forLoopE.induct)
  case (1 c bound body s)
  show ?case
  proof (cases "int c < bound")
    case True
    then have "c < nat bound" by linarith
    then have u: "[c..<nat bound] = c # [Suc c..<nat bound]" by (simp add: upt_conv_Cons)
    from 1(3)[OF le_refl True 1(2)]
    have b: "body c s = Inr (g c s)" and p: "P (Suc c) (g c s)" by simp_all
    have "forLoopE (Suc c) bound body (g c s) = Inr (fold g [Suc c..<nat bound] (g c s))"
      by (rule 1(1)[OF True b p]) (use 1(3) in auto)
    with True b u show ?thesis by (subst forLoopE.simps) simp
  next
    case False
    then have "nat bound \<le> c" by linarith
    with False show ?thesis by (subst forLoopE.simps) simp
  qed
qed

lemma forLoopE_fold:
  assumes "\<And>c' s'. c \<le> c' \<Longrightarrow> int c' < bound \<Longrightarrow> body c' s' = Inr (g c' s')"
  shows "forLoopE c bound body s = Inr (fold g [c..<nat bound] s)"
  by (rule forLoopE_fold_inv[where P = "\<lambda>_ _. True"]) (simp_all add: assms)

lemma forLoopE_first_throws:
  assumes "int c < bound" and "body c s = Inl e"
  shows "forLoopE c bound body s = Inl e"
  using assms by (subst forLoopE.simps) simp

subsection \<open>The constructor\<close>

lemma map_const_upt: "map (\<lambda>b. v) [0..<n] = replicate n v"
  by (induction n) (auto simp: replicate_append_same)

lemma generateBiases_eq: "generateBiases outputSize = replicate (nat outputSize) (- 0.1)"
  by (simp add: generateBiases_def forLoop_push map_const_upt)

lemma generateNodeWeights_eq:
  "generateNodeWeights i j inputSize outputSize =
     map (\<lambda>k. weightValue i j k inputSize) [0..<nat outputSize]"
  by (simp add: generateNodeWeights_def Let_def forLoop_push weightValue_def)

lemma generateWeights_eq:
  "generateWeights i inputSize outputSize =
     map (\<lambda>j. map (\<lambda>k. weightValue i j k inputSize) [0..<nat outputSize]) [0..<nat inputSize]"
  by (simp add: generateWeights_def forLoop_push generateNodeWeights_eq)

lemma fold_initializeLayer:
  "fold initializeLayer xs this =
     this\<lparr>weights := weights this @
              map (\<lambda>i. generateWeights i (layerSizes this ! i) (layerSizes this ! (i + 1))) xs,
          biases := biases this @ map (\<lambda>i. generateBiases (layerSizes this ! (i + 1))) xs\<rparr>"
  by (induction xs arbitrary: this) (simp_all add: initializeLayer_def Let_def)

lemma new_SimpleNeuralNet_eq:
  "new_SimpleNeuralNet inputSize hiddenSizes outputSize =
     \<lparr>weights = map (\<lambda>i. generateWeights i ((inputSize # hiddenSizes @ [outputSize]) ! i)
                          ((hiddenSizes @ [outputSize]) ! i)) [0..<Suc (length hiddenSizes)],
      biases = map (\<lambda>i. generateBiases ((hiddenSizes @ [outputSize]) ! i))
                 [0..<Suc (length hiddenSizes)],
      layerSizes = inputSize # hiddenSizes @ [outputSize]\<rparr>"
  by (simp add: new_SimpleNeuralNet_def initializeWeights_def forLoop_fold fold_initializeLayer
      nat_add_distrib del: upt_Suc)

lemma wellShaped_new: "wellShaped (new_SimpleNeuralNet inputSize hiddenSizes outputSize)"
  unfolding new_SimpleNeuralNet_eq wellShaped_def
  by (simp add: generateWeights_eq generateBiases_eq nth_append del: upt_Suc)

subsection \<open>Forward propagation\<close>

lemma length_layerValues [simp]: "length (layerValues cur W B n) = nat n"
  by (simp add: layerValues_def)

lemma dotLoop_eq:
  assumes "length cur \<le> length W" and "\<forall>j < length cur. k < length (W ! j)"
  shows "forLoopE 0 (int (length cur)) (dotStep cur W k) b = Inr (weightedSum cur W b k)"
proof -
  have "forLoopE 0 (int (length cur)) (dotStep cur W k) b
        = Inr (fold (\<lambda>j acc. acc + cur ! j * (W ! j ! k)) [0..<nat (int (length cur))] b)"
    by (rule forLoopE_fold) (use assms in \<open>simp add: dotStep_def elemAt_def\<close>)
  then show ?thesis by (simp add: weightedSum_def)
qed

lemma nodeStep_eq:
  assumes "k < length B" and "length cur \<le> length W" and "\<forall>j < length cur. k < length (W ! j)"
  shows "nodeStep cur W (Some B) k nxt = Inr (nxt @ [sigmoid (weightedSum cur W (B ! k) k)])"
  using assms by (simp add: nodeStep_def nodeActivation_def elemAt_def dotLoop_eq)

lemma forLoopE_skip: "bound \<le> 0 \<Longrightarrow> forLoopE 0 bound body s = Inr s"
  by (subst forLoopE.simps) simp

lemma nodeLoop_eq:
  assumes "nat n \<le> length B"
    and "length cur \<le> length W \<and> (\<forall>j < length cur. nat n \<le> length (W ! j)) \<or> n \<le> 0"
  shows "forLoopE 0 n (nodeStep cur W (Some B)) [] = Inr (layerValues cur W B n)"
proof (cases "n \<le> 0")
  case True
  then show ?thesis by (simp add: forLoopE_skip layerValues_def)
next
  case False
  with assms(2) have len: "length cur \<le> length W"
    and rows: "\<forall>j < length cur. nat n \<le> length (W ! j)" by simp_all
  have "forLoopE 0 n (nodeStep cur W (Some B)) []
        = Inr (fold (\<lambda>k nxt. nxt @ [sigmoid (weightedSum cur W (B ! k) k)]) [0..<nat n] [])"
  proof (rule forLoopE_fold)
    fix k nxt assume "int k < n"
    then have "k < nat n" by linarith
    with assms(1) len rows
    show "nodeStep cur W (Some B) k nxt = Inr (nxt @ [sigmoid (weightedSum cur W (B ! k) k)])"
      by (intro nodeStep_eq) auto
  qed
  then show ?thesis by (simp add: fold_push layerValues_def)
qed

lemma layerStep_eq:
  assumes "wellShaped this" and "i < length (weights this)"
    and "length cur \<le> length (weights this ! i) \<or> layerSizes this ! (i + 1) \<le> 0"
  shows "layerStep this i (acts, cur) =
           Inr (acts @ [layerValues cur (weights this ! i) (biases this ! i)
                          (layerSizes this ! (i + 1))],
                layerValues cur (weights this ! i) (biases this ! i) (layerSizes this ! (i + 1)))"
proof -
  from assms have a: "elemAt (biases this) i = Some (biases this ! i)"
    and b: "elemAt (layerSizes this) (Suc i) = Some (layerSizes this ! Suc i)"
    by (simp_all add: wellShaped_def elemAt_def)
  have "forLoopE 0 (layerSizes this ! (i + 1))
          (nodeStep cur (weights this ! i) (Some (biases this ! i))) []
        = Inr (layerValues cur (weights this ! i) (biases this ! i) (layerSizes this ! (i + 1)))"
    by (rule nodeLoop_eq) (use assms in \<open>auto simp: wellShaped_def\<close>)
  then show ?thesis by (simp add: layerStep_def a b)
qed

lemma fold_layers:
  "fold (\<lambda>i (acts, cur).
           let nxt = layerValues cur (weights this ! i) (biases this ! i)
                       (layerSizes this ! (i + 1))
           in (acts @ [nxt], nxt)) is (acts, cur)
   = (acts @ activationsFrom this is cur, last (cur # activationsFrom this is cur))"
  by (induction "is" arbitrary: acts cur) (simp_all add: Let_def)

lemma layerLoop_eq:
  assumes "wellShaped this"
    and "weights this \<noteq> [] \<Longrightarrow>
         length inputs \<le> length (weights this ! 0) \<or> layerSizes this ! 1 \<le> 0"
  shows "forLoopE 0 (int (length (weights this))) (layerStep this) ([inputs], inputs)
         = Inr (inputs # activationsFrom this [0..<length (weights this)] inputs,
                last (inputs # activationsFrom this [0..<length (weights this)] inputs))"
proof -
  let ?g = "\<lambda>i (acts, cur).
              let nxt = layerValues cur (weights this ! i) (biases this ! i)
                          (layerSizes this ! (i + 1))
              in (acts @ [nxt], nxt)"
  let ?P = "\<lambda>i (st :: real list list \<times> real list).
              i < length (weights this) \<longrightarrow>
              length (snd st) \<le> length (weights this ! i) \<or> layerSizes this ! (i + 1) \<le> 0"
  have "forLoopE 0 (int (length (weights this))) (layerStep this) ([inputs], inputs)
        = Inr (fold ?g [0..<nat (int (length (weights this)))] ([inputs], inputs))"
  proof (rule forLoopE_fold_inv[where P = ?P])
    show "?P 0 ([inputs], inputs)" using assms(2) by auto
  next
    fix i st assume i: "int i < int (length (weights this))" and p: "?P i st"
    obtain acts cur where st: "st = (acts, cur)" by (cases st)
    from i p st
    have len: "length cur \<le> length (weights this ! i) \<or> layerSizes this ! (i + 1) \<le> 0"
      by simp
    have "layerStep this i st = Inr (?g i st)"
      unfolding st using layerStep_eq[OF assms(1) _ len] i by (simp add: Let_def)
    moreover have "?P (Suc i) (?g i st)"
      using assms(1) i by (auto simp: st Let_def wellShaped_def)
    ultimately show "layerStep this i st = Inr (?g i st) \<and> ?P (Suc i) (?g i st)" by simp
  qed
  moreover have "fold ?g [0..<length (weights this)] ([inputs], inputs)
      = ([inputs] @ activationsFrom this [0..<length (weights this)] inputs,
         last (inputs # activationsFrom this [0..<length (weights this)] inputs))"
    by (rule fold_layers)
  ultimately show ?thesis by (simp only: nat_int append.simps)
qed

lemma forwardPropagate_eq:
  assumes "wellShaped this"
    and "weights this \<noteq> [] \<Longrightarrow>
         length inputs \<le> length (weights this ! 0) \<or> layerSizes this ! 1 \<le> 0"
  shows "forwardPropagate this inputs
         = Inr (inputs # activationsFrom this [0..<length (weights this)] inputs)"
  by (simp add: forwardPropagate_def layerLoop_eq[OF assms])

subsection \<open>Facts about constructed engines\<close>

lemma length_activationsFrom [simp]: "length (activationsFrom this is cur) = length is"
  by (induction "is" arbitrary: cur) (simp_all add: Let_def)

lemma length_nth_activationsFrom:
  "m < length is \<Longrightarrow>
   length (activationsFrom this is cur ! m) = nat (layerSizes this ! (is ! m + 1))"
proof (induction "is" arbitrary: cur m)
  case Nil
  then show ?case by simp
next
  case (Cons i "is")
  then show ?case by (cases m) (simp_all add: Let_def)
qed

lemma layerSizes_new [simp]:
  "layerSizes (new_SimpleNeuralNet inputSize hiddenSizes outputSize)
   = inputSize # hiddenSizes @ [outputSize]"
  by (simp add: new_SimpleNeuralNet_eq)

lemma length_weights_new [simp]:
  "length (weights (new_SimpleNeuralNet inputSize hiddenSizes outputSize)) = Suc (length hiddenSizes)"
  by (simp add: new_SimpleNeuralNet_eq)

lemma length_biases_new [simp]:
  "length (biases (new_SimpleNeuralNet inputSize hiddenSizes outputSize)) = Suc (length hiddenSizes)"
  by (simp add: new_SimpleNeuralNet_eq)

lemma weights_new_nth:
  "i \<le> length hiddenSizes \<Longrightarrow>
   weights (new_SimpleNeuralNet inputSize hiddenSizes outputSize) ! i
   = generateWeights i ((inputSize # hiddenSizes @ [outputSize]) ! i)
       ((hiddenSizes @ [outputSize]) ! i)"
  unfolding new_SimpleNeuralNet_eq by (simp del: upt_Suc)

lemma biases_new_nth:
  "i \<le> length hiddenSizes \<Longrightarrow>
   biases (new_SimpleNeuralNet inputSize hiddenSizes outputSize) ! i
   = generateBiases ((hiddenSizes @ [outputSize]) ! i)"
  unfolding new_SimpleNeuralNet_eq by (simp del: upt_Suc)

text \<open>
  On a constructed engine a call returns the snapshot of the closed form when the input
  is not longer than the first layer, or when the second layer has no node.
\<close>

lemma forwardPropagate_new:
  assumes "length inputs \<le> nat inputSize \<or> (hiddenSizes @ [outputSize]) ! 0 \<le> 0"
  shows "forwardPropagate (new_SimpleNeuralNet inputSize hiddenSizes outputSize) inputs
         = Inr (inputs # activationsFrom (new_SimpleNeuralNet inputSize hiddenSizes outputSize)
                  [0..<Suc (length hiddenSizes)] inputs)"
proof -
  let ?net = "new_SimpleNeuralNet inputSize hiddenSizes outputSize"
  have "length (weights ?net ! 0) = nat inputSize"
    by (simp add: weights_new_nth generateWeights_eq)
  moreover have "layerSizes ?net ! 1 = (hiddenSizes @ [outputSize]) ! 0" by simp
  ultimately have "length inputs \<le> length (weights ?net ! 0) \<or> layerSizes ?net ! 1 \<le> 0"
    using assms by simp
  from forwardPropagate_eq[OF wellShaped_new this] show ?thesis by simp
qed

subsection \<open>The throwing path\<close>

text \<open>
  An input longer than the first layer reads a row the first weight matrix does not
  have.
\<close>

lemma forLoopE_throws_at:
  assumes "c \<le> m" and "int m < bound"
    and "\<And>c' s'. c \<le> c' \<Longrightarrow> c' < m \<Longrightarrow> \<exists>s''. body c' s' = Inr s''"
    and "\<And>s'. body m s' = Inl e"
  shows "forLoopE c bound body s = Inl e"
  using assms
proof (induction c bound body s rule: forLoopE.induct)
  case (1 c bound body s)
  show ?case
  proof (cases "c = m")
    case True
    with 1(3,5) show ?thesis by (subst forLoopE.simps) simp
  next
    case False
    with 1(2) have lt: "c < m" by simp
    with 1(3) have cb: "int c < bound" by linarith
    from 1(4)[OF le_refl lt] obtain s1 where b: "body c s = Inr s1" by blast
    have "forLoopE (Suc c) bound body s1 = Inl e"
      by (rule 1(1)[OF cb b]) (use lt 1(3,4,5) in auto)
    with cb b show ?thesis by (subst forLoopE.simps) simp
  qed
qed

lemma dotLoop_throws:
  assumes "length W < length cur" and "\<forall>j < length W. k < length (W ! j)"
  shows "forLoopE 0 (int (length cur)) (dotStep cur W k) b = Inl TypeError"
proof (rule forLoopE_throws_at[where m = "length W"])
  show "int (length W) < int (length cur)" using assms(1) by simp
next
  fix j acc assume "j < length W"
  with assms(2) show "\<exists>s''. dotStep cur W k j acc = Inr s''"
    by (simp add: dotStep_def elemAt_def)
next
  fix acc show "dotStep cur W k (length W) acc = Inl TypeError"
    by (simp add: dotStep_def elemAt_def)
qed simp

lemma forwardPropagate_throws:
  assumes "wellShaped this" and "weights this \<noteq> []"
    and "length (weights this ! 0) < length inputs" and "0 < layerSizes this ! 1"
  shows "forwardPropagate this inputs = Inl TypeError"
proof -
  let ?W = "weights this ! 0" and ?B = "biases this ! 0"
  from assms(1,2,4) have B: "0 < length ?B" and rows: "\<forall>j < length ?W. 0 < length (?W ! j)"
    and eb: "elemAt (biases this) 0 = Some ?B"
    and el: "elemAt (layerSizes this) (Suc 0) = Some (layerSizes this ! 1)"
    by (auto simp: wellShaped_def elemAt_def)
  have "nodeStep inputs ?W (Some ?B) 0 [] = Inl TypeError"
    using B dotLoop_throws[OF assms(3) rows]
    by (simp add: nodeStep_def nodeActivation_def elemAt_def)
  with assms(4) have "forLoopE 0 (layerSizes this ! 1) (nodeStep inputs ?W (Some ?B)) [] = Inl TypeError"
    by (intro forLoopE_first_throws) simp_all
  then have "layerStep this 0 ([inputs], inputs) = Inl TypeError"
    by (simp add: layerStep_def eb el)
  with assms(2) have "forLoopE 0 (int (length (weights this))) (layerStep this) ([inputs], inputs) = Inl TypeError"
    by (intro forLoopE_first_throws) simp_all
  then show ?thesis by (simp add: forwardPropagate_def)
qed

subsection \<open>The singleton engine\<close>

lemma forwardPropagate_engine:
  assumes "length x = 64"
  shows "forwardPropagate neuralNetEngine x
         = Inr (x # activationsFrom neuralNetEngine [0..<3] x)"
  unfolding neuralNetEngine_def
  using forwardPropagate_new[of x 64 "[16, 12]" 10] assms by (simp add: numeral_3_eq_3)

subsection \<open>The sigmoid and the all-zero input\<close>

lemma sigmoid_pos: "0 < sigmoid x"
  by (simp add: sigmoid_def add_pos_pos)

lemma sigmoid_less_one: "sigmoid x < 1"
  by (simp add: sigmoid_def add_pos_pos)

lemma sigmoid_inj: "sigmoid x = sigmoid y \<Longrightarrow> x = y"
proof -
  assume "sigmoid x = sigmoid y"
  then have "1 + exp (- x) = 1 + exp (- y)"
    unfolding sigmoid_def
    by (metis add_pos_pos exp_gt_zero inverse_eq_divide inverse_inverse_eq zero_less_one)
  then show "x = y" by simp
qed

lemma weightedSum_zero:
  "weightedSum (replicate n 0) W b k = b"
proof -
  have "fold (\<lambda>j acc. acc + replicate n 0 ! j * (W ! j ! k)) js b = b"
    if "set js \<subseteq> {0..<n}" for js
    using that by (induction js) simp_all
  then show ?thesis by (simp add: weightedSum_def)
qed

lemma layerValues_zero:
  "layerValues (replicate n 0) W (generateBiases m) m = replicate (nat m) (sigmoid (- 0.1))"
proof -
  have "map (\<lambda>k. sigmoid (replicate (nat m) (- (1 / 10) :: real) ! k)) [0..<nat m]
        = map (\<lambda>k. sigmoid (- (1 / 10))) [0..<nat m]"
    by (rule map_cong) simp_all
  then show ?thesis
    by (simp add: layerValues_def weightedSum_zero generateBiases_eq map_const_upt)
qed

lemma activationsFrom_first:
  "activationsFrom this (i # is) cur ! 0
   = layerValues cur (weights this ! i) (biases this ! i) (layerSizes this ! (i + 1))"
  by (simp add: Let_def)

text \<open>
  Three sums of sines at arguments one apart cannot all be 1: the outer two add up to
  \<open>2 * cos 1\<close> times the middle one, and \<open>cos 1 < 1\<close>.
\<close>

lemma three_sines:
  assumes "sin (a - 1) + sin (b - 1) = 1" and "sin a + sin b = 1" and "sin (a + 1) + sin (b + 1) = (1::real)"
  shows False
proof -
  have s: "sin (x + 1) + sin (x - 1) = 2 * sin x * cos 1" for x :: real
    by (simp add: sin_add sin_diff)
  have "(sin (a + 1) + sin (a - 1)) + (sin (b + 1) + sin (b - 1)) = 2"
    using assms(1,3) by simp
  then have "2 * (sin a + sin b) * cos 1 = 2"
    unfolding s by (simp add: algebra_simps)
  with assms(2) have "cos (1::real) = 1" by simp
  moreover have "cos (2 * (1/2 :: real)) < 1" by (rule cos_double_less_one) simp_all
  ultimately show False by simp
qed

subsection \<open>The values of single weights and nodes\<close>

lemma generateWeights_nth:
  "j < nat inputSize \<Longrightarrow> k < nat outputSize \<Longrightarrow>
   generateWeights i inputSize outputSize ! j ! k = weightValue i j k inputSize"
  by (simp add: generateWeights_eq)

lemma generateBiases_nth: "k < nat outputSize \<Longrightarrow> generateBiases outputSize ! k = - 0.1"
  by (simp add: generateBiases_eq)

lemma weightedSum_two:
  "weightedSum [c, d] W b k = b + c * (W ! 0 ! k) + d * (W ! 1 ! k)"
  by (simp add: weightedSum_def upt_rec[of 0] upt_rec[of 1] upt_rec[of 2] numeral_2_eq_2)

lemma second_layer_node:
  assumes "k < 3"
    and "sigmoid (weightedSum [sigmoid (- 0.1), sigmoid (- 0.1)]
                    (generateWeights 1 2 3) (generateBiases 3 ! k) k) = sigmoid (- 0.1)"
  shows "sin (1000 + real k) + sin (1100 + real k) = 1"
proof -
  let ?c = "sigmoid (- 0.1)"
  from assms(1) have w0: "generateWeights 1 2 3 ! 0 ! k = weightValue 1 0 k 2"
    and w1: "generateWeights 1 2 3 ! 1 ! k = weightValue 1 1 k 2"
    and b: "generateBiases 3 ! k = - 0.1"
    by (simp_all add: generateWeights_nth generateBiases_nth)
  from sigmoid_inj[OF assms(2)]
  have "- 0.1 + ?c * weightValue 1 0 k 2 + ?c * weightValue 1 1 k 2 = - 0.1"
    unfolding weightedSum_two w0 w1 b .
  then have "?c * (weightValue 1 0 k 2 + weightValue 1 1 k 2) = 0"
    by (simp add: algebra_simps)
  moreover have "?c \<noteq> 0" using sigmoid_pos[of "- 0.1"] by simp
  ultimately have "weightValue 1 0 k 2 + weightValue 1 1 k 2 = 0" by simp
  then have "(sin (1000 + real k) * 2 - 1) + (sin (1100 + real k) * 2 - 1) = 0"
    by (simp add: weightValue_def add_divide_distrib[symmetric])
  then show ?thesis by simp
qed

lemma zero_input_4_2_3:
  "forwardPropagate (new_SimpleNeuralNet 4 [2] 3) [0, 0, 0, 0]
   = Inr [[0, 0, 0, 0],
          [sigmoid (- 0.1), sigmoid (- 0.1)],
          map (\<lambda>k. sigmoid (weightedSum [sigmoid (- 0.1), sigmoid (- 0.1)]
                          (generateWeights 1 2 3) (generateBiases 3 ! k) k)) [0..<3]]"
proof -
  let ?net = "new_SimpleNeuralNet 4 [2] 3"
  have x: "[0, 0, 0, 0] = replicate 4 (0::real)" by (simp add: numeral_eq_Suc)
  have u: "[0..<Suc (length [2::int])] = [0, 1]" by (simp add: upt_rec[of 0] upt_rec[of 1])
  have l1: "layerValues (replicate 4 0) (weights ?net ! 0) (biases ?net ! 0) 2
            = [sigmoid (- 0.1), sigmoid (- 0.1)]"
    using layerValues_zero[of 4 "weights ?net ! 0" 2]
    by (simp add: biases_new_nth numeral_2_eq_2)
  have "forwardPropagate ?net (replicate 4 0)
        = Inr (replicate 4 0 # activationsFrom ?net [0..<Suc (length [2::int])] (replicate 4 0))"
    by (rule forwardPropagate_new) simp
  also have "activationsFrom ?net [0..<Suc (length [2::int])] (replicate 4 0)
        = [[sigmoid (- 0.1), sigmoid (- 0.1)],
           layerValues [sigmoid (- 0.1), sigmoid (- 0.1)] (weights ?net ! 1) (biases ?net ! 1) 3]"
    unfolding u by (simp add: Let_def l1)
  also have "weights ?net ! 1 = generateWeights 1 2 3" by (simp add: weights_new_nth)
  also have "biases ?net ! 1 = generateBiases 3" by (simp add: biases_new_nth)
  finally show ?thesis unfolding x by (simp add: layerValues_def)
qed

lemma weights_engine_0_0_4:
  "weights neuralNetEngine ! 0 ! 0 ! 4 = (sin 4 * 2 - 1) / sqrt 64"
proof -
  have "weights neuralNetEngine ! 0 = generateWeights 0 64 16"
    unfolding neuralNetEngine_def by (simp add: weights_new_nth)
  moreover have "generateWeights 0 64 16 ! 0 ! 4 = weightValue 0 0 4 64"
    by (rule generateWeights_nth) simp_all
  ultimately show ?thesis by (simp add: weightValue_def)
qed

lemma sin_4_neg: "sin (4::real) < 0"
proof (rule sin_lt_zero)
  show "pi < 4" by (rule pi_less_4)
  have "sin (pi / 6) \<le> pi / 6" by (rule sin_x_le_x) simp
  then show "(4::real) < 2 * pi" by (simp add: sin_30)
qed

text \<open>
  Every weight of a constructed engine has the value of the closed form; it lies
  between \<open>- 3 / sqrt n\<close> and \<open>1 / sqrt n\<close> for \<open>n\<close> input nodes.
\<close>

lemma weights_new_value:
  assumes "i \<le> length hiddenSizes"
    and "j < nat ((inputSize # hiddenSizes @ [outputSize]) ! i)"
    and "k < nat ((hiddenSizes @ [outputSize]) ! i)"
  shows "weights (new_SimpleNeuralNet inputSize hiddenSizes outputSize) ! i ! j ! k
         = weightValue i j k ((inputSize # hiddenSizes @ [outputSize]) ! i)"
  using assms by (simp add: weights_new_nth generateWeights_nth)

lemma weightValue_bounds:
  assumes "0 < inputSize"
  shows "- 3 / sqrt (real_of_int inputSize) \<le> weightValue i j k inputSize"
    and "weightValue i j k inputSize \<le> 1 / sqrt (real_of_int inputSize)"
proof -
  let ?s = "sin (real_of_int (int i * 1000 + int j * 100 + int k))"
  have r: "0 < sqrt (real_of_int inputSize)" using assms by simp
  have "- 3 \<le> ?s * 2 - 1" using sin_ge_minus_one[of "real_of_int (int i * 1000 + int j * 100 + int k)"]
    by linarith
  then show "- 3 / sqrt (real_of_int inputSize) \<le> weightValue i j k inputSize"
    unfolding weightValue_def using r by (intro divide_right_mono) simp_all
  have "?s * 2 - 1 \<le> 1" using sin_le_one[of "real_of_int (int i * 1000 + int j * 100 + int k)"]
    by linarith
  then show "weightValue i j k inputSize \<le> 1 / sqrt (real_of_int inputSize)"
    unfolding weightValue_def using r by (intro divide_right_mono) simp_all
qed

subsection \<open>The composition\<close>

lemma zeroState_engine:
  "zeroState (getLayerConfig neuralNetEngine)
   = Inr [replicate 64 0, replicate 16 0, replicate 12 0, replicate 10 0]"
  by (simp add: zeroState_def getLayerConfig_def neuralNetEngine_def)

lemma computeNetworkState_wrong_input:
  "length x \<noteq> 64 \<Longrightarrow> computeNetworkState x ov = zeroState (getLayerConfig neuralNetEngine)"
  by (simp add: computeNetworkState_def)

lemma computeNetworkState_None:
  "length x = 64 \<Longrightarrow> computeNetworkState x None = forwardPropagate neuralNetEngine x"
  by (simp add: computeNetworkState_def forwardPropagate_engine)

lemma computeNetworkState_wrong_override:
  "length x = 64 \<Longrightarrow> length p \<noteq> 10 \<Longrightarrow>
   computeNetworkState x (Some p) = computeNetworkState x None"
  by (simp add: computeNetworkState_def forwardPropagate_engine)

subsection \<open>Inputs of the wrong length\<close>

lemma forwardPropagate_short_input:
  assumes "length y < nat inputSize"
  shows "\<exists>snapshot. forwardPropagate (new_SimpleNeuralNet inputSize hiddenSizes outputSize) y
                      = Inr snapshot \<and> snapshot ! 0 = y"
  using forwardPropagate_new[of y inputSize hiddenSizes outputSize] assms by simp

lemma forwardPropagate_long_input:
  assumes "nat inputSize < length y" and "0 < (hiddenSizes @ [outputSize]) ! 0"
  shows "forwardPropagate (new_SimpleNeuralNet inputSize hiddenSizes outputSize) y = Inl TypeError"
proof (rule forwardPropagate_throws[OF wellShaped_new])
  let ?net = "new_SimpleNeuralNet inputSize hiddenSizes outputSize"
  have "length (weights ?net) = Suc (length hiddenSizes)" by (rule length_weights_new)
  then show "weights ?net \<noteq> []" by (cases "weights ?net") simp_all
  show "length (weights ?net ! 0) < length y"
    using assms(1) by (simp add: weights_new_nth generateWeights_eq)
  show "0 < layerSizes ?net ! 1" using assms(2) by simp
qed

text \<open>
  Every call on a constructed engine returns a snapshot or throws a \<open>TypeError\<close>; it
  throws exactly when the input is longer than the first layer and the second layer
  has a node.
\<close>

lemma forwardPropagate_cases:
  "forwardPropagate (new_SimpleNeuralNet inputSize hiddenSizes outputSize) inputs
   = (if nat inputSize < length inputs \<and> 0 < (hiddenSizes @ [outputSize]) ! 0
      then Inl TypeError
      else Inr (inputs # activationsFrom (new_SimpleNeuralNet inputSize hiddenSizes outputSize)
                  [0..<Suc (length hiddenSizes)] inputs))"
proof (cases "nat inputSize < length inputs \<and> 0 < (hiddenSizes @ [outputSize]) ! 0")
  case True
  then show ?thesis by (simp add: forwardPropagate_long_input)
next
  case False
  then have "length inputs \<le> nat inputSize \<or> (hiddenSizes @ [outputSize]) ! 0 \<le> 0"
    by linarith
  from forwardPropagate_new[OF this] False show ?thesis by simp
qed

section \<open>Facts about the engine in a store\<close>

subsection \<open>Loop rules\<close>

lemma fold_invariant:
  assumes "P s" and "\<And>c s'. c \<in> set cs \<Longrightarrow> P s' \<Longrightarrow> P (body c s')"
  shows "P (fold body cs s)"
  using assms by (induction cs arbitrary: s) simp_all

lemma forLoopE_rule:
  assumes "P c s"
    and "\<And>c' s'. c \<le> c' \<Longrightarrow> int c' < bound \<Longrightarrow> P c' s' \<Longrightarrow>
           (case body c' s' of Inl e \<Rightarrow> Q e | Inr s'' \<Rightarrow> P (Suc c') s'')"
  shows "case forLoopE c bound body s of Inl e \<Rightarrow> Q e | Inr s' \<Rightarrow> P (max c (nat bound)) s'"
  using assms
proof (induction c bound body s rule: forLoopE.induct)
  case (1 c bound body s)
  show ?case
  proof (cases "int c < bound")
    case True
    note step = 1(3)[OF le_refl True 1(2)]
    show ?thesis
    proof (cases "body c s")
      case (Inl e)
      with step True show ?thesis by (subst forLoopE.simps) simp
    next
      case (Inr s1)
      with step have p: "P (Suc c) s1" by simp
      have m: "max (Suc c) (nat bound) = max c (nat bound)" using True by linarith
      have "case forLoopE (Suc c) bound body s1 of
              Inl e \<Rightarrow> Q e | Inr s' \<Rightarrow> P (max (Suc c) (nat bound)) s'"
        by (rule 1(1)[OF True Inr p]) (use 1(3) in auto)
      then have "case forLoopE (Suc c) bound body s1 of
              Inl e \<Rightarrow> Q e | Inr s' \<Rightarrow> P (max c (nat bound)) s'"
        by (simp only: m)
      moreover have "forLoopE c bound body s = forLoopE (Suc c) bound body s1"
        using True Inr by (subst forLoopE.simps) simp
      ultimately show ?thesis by simp
    qed
  next
    case False
    then have "max c (nat bound) = c" by linarith
    with False 1(2) show ?thesis by (subst forLoopE.simps) simp
  qed
qed

text \<open>Two loops over the same counter values that proceed in lockstep.\<close>

lemma forLoopE_sim:
  assumes "R c s t"
    and "\<And>c' s' t'. c \<le> c' \<Longrightarrow> int c' < bound \<Longrightarrow> R c' s' t' \<Longrightarrow>
           rel_sum E (R (Suc c')) (body1 c' s') (body2 c' t')"
  shows "rel_sum E (R (max c (nat bound))) (forLoopE c bound body1 s) (forLoopE c bound body2 t)"
  using assms
proof (induction c bound body1 s arbitrary: t rule: forLoopE.induct)
  case (1 c bound body1 s)
  show ?case
  proof (cases "int c < bound")
    case True
    note step = 1(3)[OF le_refl True 1(2)]
    show ?thesis
    proof (cases "body1 c s")
      case (Inl e)
      with step obtain e' where "body2 c t = Inl e'" and "E e e'"
        by (cases "body2 c t") simp_all
      moreover have "forLoopE c bound body1 s = Inl e"
        using True Inl by (subst forLoopE.simps) simp
      moreover have "forLoopE c bound body2 t = Inl e'"
        using True \<open>body2 c t = Inl e'\<close> by (subst forLoopE.simps) simp
      ultimately show ?thesis by simp
    next
      case (Inr s1)
      with step obtain t1 where t1: "body2 c t = Inr t1" and r: "R (Suc c) s1 t1"
        by (cases "body2 c t") simp_all
      have m: "max (Suc c) (nat bound) = max c (nat bound)" using True by linarith
      have "rel_sum E (R (max (Suc c) (nat bound)))
              (forLoopE (Suc c) bound body1 s1) (forLoopE (Suc c) bound body2 t1)"
        by (rule 1(1)[OF True Inr r]) (use 1(3) in auto)
      then have "rel_sum E (R (max c (nat bound)))
              (forLoopE (Suc c) bound body1 s1) (forLoopE (Suc c) bound body2 t1)"
        by (simp only: m)
      moreover have "forLoopE c bound body1 s = forLoopE (Suc c) bound body1 s1"
        using True Inr by (subst forLoopE.simps) simp
      moreover have "forLoopE c bound body2 t = forLoopE (Suc c) bound body2 t1"
        using True t1 by (subst forLoopE.simps) simp
      ultimately show ?thesis by simp
    qed
  next
    case False
    then have "max c (nat bound) = c" by linarith
    moreover have "forLoopE c bound body1 s = Inr s"
      using False by (subst forLoopE.simps) simp
    moreover have "forLoopE c bound body2 t = Inr t"
      using False by (subst forLoopE.simps) simp
    ultimately show ?thesis using 1(2) by simp
  qed
qed

subsection \<open>Reads and writes of the store\<close>

lemma elemAt_append_old: "a < length h \<Longrightarrow> elemAt (h @ ext) a = elemAt h a"
  by (simp add: elemAt_def nth_append)

lemma elemAt_append_new [simp]: "elemAt (h @ [c]) (length h) = Some c"
  by (simp add: elemAt_def)

lemma elemAt_update_other: "a' \<noteq> a \<Longrightarrow> elemAt (h[a := c]) a' = elemAt h a'"
  by (simp add: elemAt_def)

lemma elemAt_update_same: "a < length h \<Longrightarrow> elemAt (h[a := c]) a = Some c"
  by (simp add: elemAt_def)

lemma elemAt_take: "a < n \<Longrightarrow> elemAt (take n h) a = elemAt h a"
  by (simp add: elemAt_def)

lemma length_pushNumber [simp]: "length (pushNumber a v h) = length h"
  by (simp add: pushNumber_def)

lemma length_pushRef [simp]: "length (pushRef a r h) = length h"
  by (simp add: pushRef_def)

lemma take_pushNumber: "n \<le> a \<Longrightarrow> take n (pushNumber a v h) = take n h"
  by (simp add: pushNumber_def)

lemma take_pushRef: "n \<le> a \<Longrightarrow> take n (pushRef a r h) = take n h"
  by (simp add: pushRef_def)

text \<open>A store that still holds an earlier store as its first cells reads there as before.\<close>

lemma numbersAt_prefix: "take n h' = take n h \<Longrightarrow> a < n \<Longrightarrow> numbersAt h' a = numbersAt h a"
  by (metis elemAt_take numbersAt_def)

lemma refsAt_prefix: "take n h' = take n h \<Longrightarrow> a < n \<Longrightarrow> refsAt h' a = refsAt h a"
  by (metis elemAt_take refsAt_def)

lemma sizesAt_prefix: "take n h' = take n h \<Longrightarrow> a < n \<Longrightarrow> sizesAt h' a = sizesAt h a"
  by (metis elemAt_take sizesAt_def)

lemma numbersAt_pushNumber_same:
  "a < length h \<Longrightarrow> numbersAt (pushNumber a v h) a = numbersAt h a @ [v]"
  by (simp add: pushNumber_def numbersAt_def elemAt_update_same)

lemma refsAt_pushRef_same: "a < length h \<Longrightarrow> refsAt (pushRef a r h) a = refsAt h a @ [r]"
  by (simp add: pushRef_def refsAt_def elemAt_update_same)

lemma numbersAt_append_new [simp]: "numbersAt (h @ [Numbers xs]) (length h) = xs"
  by (simp add: numbersAt_def)

lemma refsAt_append_new [simp]: "refsAt (h @ [Refs rs]) (length h) = rs"
  by (simp add: refsAt_def)

lemma pushNumber_new [simp]:
  "pushNumber (length h) v (h @ [Numbers xs]) = h @ [Numbers (xs @ [v])]"
  by (simp add: pushNumber_def)

subsection \<open>What forward propagation writes\<close>

lemma take_take_le: "n \<le> m \<Longrightarrow> take m h' = take m h \<Longrightarrow> take n h' = take n h"
  by (metis min.absorb1 take_take)

lemma elemAt_prefix: "take n h' = take n h \<Longrightarrow> a < n \<Longrightarrow> elemAt h' a = elemAt h a"
  by (metis elemAt_take)

lemma nodeStep_s_keeps:
  assumes "take n hk = ht" and "length hk = Suc n"
  shows "case nodeStep_s cur layerW layerB n outIdx hk of
           Inl (e, h') \<Rightarrow> take n h' = ht \<and> length h' = Suc n
         | Inr h' \<Rightarrow> take n h' = ht \<and> length h' = Suc n \<and>
                     elemAt h' n = Some (Numbers (numbersAt h' n))"
  using assms
  by (simp add: nodeStep_s_def take_pushNumber pushNumber_def numbersAt_def elemAt_update_same
      split: sum.splits)

lemma nodeLoop_s_keeps:
  "case forLoopE 0 outputCount (nodeStep_s cur layerW layerB (length ht)) (ht @ [Numbers []]) of
     Inl (e, h') \<Rightarrow> take (length ht) h' = ht \<and> length h' = Suc (length ht)
   | Inr h' \<Rightarrow> take (length ht) h' = ht \<and> length h' = Suc (length ht) \<and>
               elemAt h' (length ht) = Some (Numbers (numbersAt h' (length ht)))"
proof -
  let ?P = "\<lambda>(k::nat) h'. take (length ht) h' = ht \<and> length h' = Suc (length ht) \<and>
              elemAt h' (length ht) = Some (Numbers (numbersAt h' (length ht)))"
  let ?Q = "\<lambda>(eh :: error \<times> store).
              take (length ht) (snd eh) = ht \<and> length (snd eh) = Suc (length ht)"
  have "case forLoopE 0 outputCount (nodeStep_s cur layerW layerB (length ht)) (ht @ [Numbers []]) of
          Inl eh \<Rightarrow> ?Q eh | Inr h' \<Rightarrow> ?P (max 0 (nat outputCount)) h'"
  proof (rule forLoopE_rule[where P = ?P and Q = ?Q])
    show "?P 0 (ht @ [Numbers []])" by simp
  next
    fix k hk assume "?P k hk"
    then show "case nodeStep_s cur layerW layerB (length ht) k hk of
                 Inl eh \<Rightarrow> ?Q eh | Inr h' \<Rightarrow> ?P (Suc k) h'"
      using nodeStep_s_keeps[where n = "length ht" and hk = hk and ht = ht and cur = cur
          and layerW = layerW and layerB = layerB and outIdx = k]
      by (auto split: sum.splits)
  qed
  then show ?thesis by (auto split: sum.splits)
qed

lemma layerStep_s_keeps:
  assumes "snapshotFresh h ht"
  shows "case layerStep_s this (length h) i (cur, ht) of
           Inl (e, h') \<Rightarrow> take (length h) h' = h \<and> length h + 2 \<le> length h'
         | Inr (nxt, h') \<Rightarrow> snapshotFresh h h'"
proof -
  let ?W = "refsAt (ht @ [Numbers []]) (weightsRef this) ! i"
  let ?B = "elemAt (refsAt (ht @ [Numbers []]) (biasesRef this)) i"
  let ?n = "case elemAt (sizesAt (ht @ [Numbers []]) (layerSizesRef this)) (i + 1) of
              None \<Rightarrow> 0 | Some n \<Rightarrow> n"
  let ?loop = "forLoopE 0 ?n (nodeStep_s cur ?W ?B (length ht)) (ht @ [Numbers []])"
  from assms have pre: "take (length h) ht = h" and len: "length h + 2 \<le> length ht"
    and cell: "elemAt ht (length h) = Some (Refs (refsAt ht (length h)))"
    and sub: "set (refsAt ht (length h)) \<subseteq> {Suc (length h)..<length ht}"
    and dist: "distinct (refsAt ht (length h))"
    and nums: "\<forall>l \<in> set (refsAt ht (length h)). elemAt ht l = Some (Numbers (numbersAt ht l))"
    by (simp_all add: snapshotFresh_def)
  have step: "layerStep_s this (length h) i (cur, ht) =
          (case ?loop of Inl e \<Rightarrow> Inl e
           | Inr h2 \<Rightarrow> Inr (length ht, pushRef (length h) (length ht) h2))"
    by (simp add: layerStep_s_def alloc_def Let_def)
  note keeps = nodeLoop_s_keeps[where outputCount = ?n and cur = cur and layerW = ?W
      and layerB = ?B and ht = ht]
  show ?thesis
  proof (cases ?loop)
    case (Inl eh)
    obtain e h' where eh: "eh = (e, h')" by (cases eh)
    with keeps Inl have t: "take (length ht) h' = ht" and l: "length h' = Suc (length ht)"
      by simp_all
    from t have "take (length h) h' = take (length h) ht"
      using len by (intro take_take_le[of "length h" "length ht"]) simp_all
    with pre Inl eh step l len show ?thesis by simp
  next
    case (Inr h2)
    with keeps have t2: "take (length ht) h2 = ht" and l2: "length h2 = Suc (length ht)"
      and n2: "elemAt h2 (length ht) = Some (Numbers (numbersAt h2 (length ht)))"
      by simp_all
    from t2 have t2': "take (length ht) h2 = take (length ht) ht" by simp
    let ?h' = "pushRef (length h) (length ht) h2"
    have a: "length h < length h2" using len l2 by simp
    have "take (length h) h2 = take (length h) ht"
      using len t2 by (intro take_take_le[of "length h" "length ht"]) simp_all
    then have p': "take (length h) ?h' = h" using pre by (simp add: take_pushRef)
    have "refsAt h2 (length h) = refsAt ht (length h)"
      using t2 len by (intro refsAt_prefix[of "length ht"]) simp_all
    then have r': "refsAt ?h' (length h) = refsAt ht (length h) @ [length ht]"
      using a by (simp add: refsAt_pushRef_same)
    have c': "elemAt ?h' (length h) = Some (Refs (refsAt ?h' (length h)))"
      using a by (simp add: pushRef_def refsAt_def elemAt_update_same)
    have other: "elemAt ?h' l = elemAt h2 l" if "l \<noteq> length h" for l
      using that by (simp add: pushRef_def elemAt_update_other)
    have new: "elemAt ?h' (length ht) = Some (Numbers (numbersAt ?h' (length ht)))"
      using len n2 other[of "length ht"] by (simp add: numbersAt_def)
    have old: "elemAt ?h' l = Some (Numbers (numbersAt ?h' l))"
      if l: "l \<in> set (refsAt ht (length h))" for l
    proof -
      from l sub have lt: "l < length ht" and ne: "l \<noteq> length h" by auto
      have "elemAt ?h' l = elemAt ht l"
        using other[OF ne] elemAt_prefix[OF t2' lt] by simp
      with nums l show ?thesis by (simp add: numbersAt_def)
    qed
    have "snapshotFresh h ?h'"
      unfolding snapshotFresh_def using p' r' c' sub dist len l2 new old by auto
    with Inr step show ?thesis by simp
  qed
qed

lemma forwardPropagate_s_writes:
  "case forwardPropagate_s this inputs h of
     (Inl e, h') \<Rightarrow> take (length h) h' = h \<and> length h + 2 \<le> length h'
   | (Inr a, h') \<Rightarrow> a = length h \<and> snapshotFresh h h'"
proof -
  let ?h3 = "pushRef (length h) (Suc (length h))
               (h @ [Refs []] @ [Numbers (numbersAt (h @ [Refs []]) inputs)])"
  let ?bound = "int (length (refsAt ?h3 (weightsRef this)))"
  let ?loop = "forLoopE 0 ?bound (layerStep_s this (length h)) (inputs, ?h3)"
  have fp: "forwardPropagate_s this inputs h =
          (case ?loop of Inl (e, h') \<Rightarrow> (Inl e, h') | Inr (cur, h') \<Rightarrow> (Inr (length h), h'))"
    by (simp add: forwardPropagate_s_def alloc_def Let_def)
  have h3: "?h3 = h @ [Refs [Suc (length h)], Numbers (numbersAt (h @ [Refs []]) inputs)]"
    by (simp add: pushRef_def list_update_append refsAt_def elemAt_def nth_append)
  have init: "snapshotFresh h ?h3"
    unfolding h3 snapshotFresh_def
    by (simp add: refsAt_def numbersAt_def elemAt_def nth_append)
  let ?P = "\<lambda>(i::nat) (st :: addr \<times> store). snapshotFresh h (snd st)"
  let ?Q = "\<lambda>(eh :: error \<times> store).
              take (length h) (snd eh) = h \<and> length h + 2 \<le> length (snd eh)"
  have "case ?loop of Inl eh \<Rightarrow> ?Q eh | Inr st \<Rightarrow> ?P (max 0 (nat ?bound)) st"
  proof (rule forLoopE_rule[where P = ?P and Q = ?Q])
    show "?P 0 (inputs, ?h3)" using init by simp
  next
    fix i st assume p: "?P i st"
    obtain cur ht where st: "st = (cur, ht)" by (cases st)
    with p have "snapshotFresh h ht" by simp
    from layerStep_s_keeps[OF this, where this = this and i = i and cur = cur]
    show "case layerStep_s this (length h) i st of Inl eh \<Rightarrow> ?Q eh | Inr st' \<Rightarrow> ?P (Suc i) st'"
      unfolding st by (auto split: sum.splits)
  qed
  then show ?thesis unfolding fp by (auto split: sum.splits prod.splits)
qed

subsection \<open>What the constructor builds\<close>

lemma fold_sim:
  assumes "R s t" and "\<And>c s' t'. c \<in> set cs \<Longrightarrow> R s' t' \<Longrightarrow> R (f c s') (g c t')"
  shows "R (fold f cs s) (fold g cs t)"
  using assms by (induction cs arbitrary: s t) simp_all

lemma elemAt_nth: "elemAt h a = Some c \<Longrightarrow> a < length h \<and> h ! a = c"
  by (auto simp: elemAt_def split: if_splits)

lemma fold_pushNumber:
  assumes "elemAt h a = Some (Numbers xs)"
  shows "fold (\<lambda>k. pushNumber a (g k)) ks h = h[a := Numbers (xs @ map g ks)]"
  using assms
proof (induction ks arbitrary: h xs)
  case Nil
  from elemAt_nth[OF Nil] have "h[a := Numbers xs] = h" by (metis list_update_id)
  then show ?case by simp
next
  case (Cons k ks)
  from elemAt_nth[OF Cons.prems] have a: "a < length h" by simp
  have p: "pushNumber a (g k) h = h[a := Numbers (xs @ [g k])]"
    using Cons.prems by (simp add: pushNumber_def numbersAt_def)
  then have "elemAt (pushNumber a (g k) h) a = Some (Numbers (xs @ [g k]))"
    using a by (simp add: elemAt_update_same)
  from Cons.IH[OF this] show ?case by (simp add: p)
qed

lemma generateBiases_s_eq:
  "generateBiases_s (length h) outputSize (h @ [Numbers []]) = h @ [Numbers (generateBiases outputSize)]"
proof -
  have "fold (\<lambda>k. pushNumber (length h) (- 0.1)) [0..<nat outputSize] (h @ [Numbers []])
        = (h @ [Numbers []])[length h := Numbers ([] @ map (\<lambda>k. - 0.1) [0..<nat outputSize])]"
    by (rule fold_pushNumber) simp
  then show ?thesis
    by (simp add: generateBiases_s_def generateBiases_def forLoop_fold fold_push)
qed

lemma generateNodeWeights_s_eq:
  "generateNodeWeights_s i j inputSize outputSize h
   = (length h, h @ [Numbers (generateNodeWeights i j inputSize outputSize)])"
proof -
  let ?g = "\<lambda>k. (sin (real_of_int (int i * 1000 + int j * 100 + int k)) * 2 - 1)
                / sqrt (real_of_int inputSize)"
  have "fold (\<lambda>k. pushNumber (length h) (?g k)) [0..<nat outputSize] (h @ [Numbers []])
        = (h @ [Numbers []])[length h := Numbers ([] @ map ?g [0..<nat outputSize])]"
    by (rule fold_pushNumber) simp
  then show ?thesis
    by (simp add: generateNodeWeights_s_def generateNodeWeights_def alloc_def Let_def
        forLoop_fold fold_push)
qed

lemma fold_pushRow:
  assumes "elemAt h lw = Some (Refs rs)"
  shows "fold (\<lambda>j h. pushRef lw (length h) (h @ [Numbers (row j)])) js h
         = h[lw := Refs (rs @ [length h..<length h + length js])] @ map (\<lambda>j. Numbers (row j)) js"
  using assms
proof (induction js arbitrary: h rs)
  case Nil
  from elemAt_nth[OF Nil] have "h[lw := Refs rs] = h" by (metis list_update_id)
  then show ?case by simp
next
  case (Cons j js)
  from elemAt_nth[OF Cons.prems] have lw: "lw < length h" by simp
  let ?h1 = "pushRef lw (length h) (h @ [Numbers (row j)])"
  have r: "refsAt (h @ [Numbers (row j)]) lw = rs"
    using Cons.prems lw by (simp add: refsAt_def elemAt_append_old)
  have h1: "?h1 = h[lw := Refs (rs @ [length h])] @ [Numbers (row j)]"
    using lw by (simp add: pushRef_def r list_update_append)
  have e1: "elemAt ?h1 lw = Some (Refs (rs @ [length h]))"
    unfolding h1 using lw by (simp add: elemAt_append_old elemAt_update_same)
  have u: "[length h..<Suc (length h + length js)]
           = length h # [Suc (length h)..<Suc (length h + length js)]"
    by (simp add: upt_conv_Cons del: upt_Suc)
  from Cons.IH[OF e1] show ?case
    using lw by (simp add: h1 list_update_append u del: upt_Suc)
qed

lemma generateWeights_s_eq:
  assumes "elemAt h lw = Some (Refs rs)"
  shows "generateWeights_s lw i inputSize outputSize h
         = h[lw := Refs (rs @ [length h..<length h + nat inputSize])]
           @ map (\<lambda>j. Numbers (generateNodeWeights i j inputSize outputSize)) [0..<nat inputSize]"
  using fold_pushRow[OF assms, of "\<lambda>j. generateNodeWeights i j inputSize outputSize"
      "[0..<nat inputSize]"]
  by (simp add: generateWeights_s_def forLoop_fold generateNodeWeights_s_eq)

lemma initializeLayer_s_eq:
  assumes "elemAt h (weightsRef this) = Some (Refs ws)"
    and "elemAt h (biasesRef this) = Some (Refs bs)"
    and "weightsRef this \<noteq> biasesRef this"
  shows "initializeLayer_s this i h
         = h[weightsRef this := Refs (ws @ [length h]),
             biasesRef this := Refs (bs @ [Suc (length h)])]
           @ layerCells (length h) i (sizesAt h (layerSizesRef this) ! i)
               (sizesAt h (layerSizesRef this) ! Suc i)"
proof -
  let ?is = "sizesAt h (layerSizesRef this) ! i"
  let ?os = "sizesAt h (layerSizesRef this) ! Suc i"
  let ?w = "weightsRef this" and ?b = "biasesRef this"
  from elemAt_nth[OF assms(1)] elemAt_nth[OF assms(2)]
  have w: "?w < length h" and b: "?b < length h" by simp_all
  have h3: "generateBiases_s (Suc (length h)) ?os (h @ [Refs [], Numbers []])
            = h @ [Refs [], Numbers (generateBiases ?os)]"
    using generateBiases_s_eq[of "h @ [Refs []]" ?os] by simp
  have e: "elemAt (h @ [Refs [], Numbers (generateBiases ?os)]) (length h) = Some (Refs [])"
    by (simp add: elemAt_def nth_append)
  have h4: "generateWeights_s (length h) i ?is ?os (h @ [Refs [], Numbers (generateBiases ?os)])
            = h @ layerCells (length h) i ?is ?os"
    unfolding generateWeights_s_eq[OF e] by (simp add: layerCells_def list_update_append)
  have rw: "refsAt (h @ layerCells (length h) i ?is ?os) ?w = ws"
    using assms(1) w by (simp add: refsAt_def elemAt_append_old)
  have h5: "pushRef ?w (length h) (h @ layerCells (length h) i ?is ?os)
            = h[?w := Refs (ws @ [length h])] @ layerCells (length h) i ?is ?os"
    using w by (simp add: pushRef_def rw list_update_append)
  have rb: "refsAt (h[?w := Refs (ws @ [length h])] @ layerCells (length h) i ?is ?os) ?b = bs"
    using assms(2,3) b by (simp add: refsAt_def elemAt_append_old elemAt_update_other)
  have h6: "pushRef ?b (Suc (length h))
              (h[?w := Refs (ws @ [length h])] @ layerCells (length h) i ?is ?os)
            = h[?w := Refs (ws @ [length h]), ?b := Refs (bs @ [Suc (length h)])]
              @ layerCells (length h) i ?is ?os"
    using b by (simp add: pushRef_def rb list_update_append)
  show ?thesis
    by (simp add: initializeLayer_s_def alloc_def Let_def h3 h4 h5 h6)
qed

text \<open>One layer transition in the store is one layer transition of the engine read out of it.\<close>

lemma map_upt_from: "map f [p..<p + n] = map (\<lambda>j. f (p + j)) [0..<n]"
  by (induction n) simp_all

lemma generateWeights_rows:
  "generateWeights i inputSize outputSize
   = map (\<lambda>j. generateNodeWeights i j inputSize outputSize) [0..<nat inputSize]"
  by (simp add: generateWeights_def forLoop_push)

lemma initializeLayer_s_step:
  assumes "ownedEngine lo h this"
  shows "ownedEngine lo (initializeLayer_s this i h) this"
    and "engineAt (initializeLayer_s this i h) this = initializeLayer i (engineAt h this)"
    and "n \<le> weightsRef this \<Longrightarrow> n \<le> biasesRef this \<Longrightarrow>
         take n (initializeLayer_s this i h) = take n h"
proof -
  let ?w = "weightsRef this" and ?b = "biasesRef this" and ?l = "layerSizesRef this"
  from assms obtain ws bs ls where
    w: "?w < lo" and b: "?b < lo" and l: "?l < lo" and wb: "?w \<noteq> ?b" and wl: "?w \<noteq> ?l"
    and bl: "?b \<noteq> ?l" and lo: "lo \<le> length h"
    and ew: "elemAt h ?w = Some (Refs ws)" and eb: "elemAt h ?b = Some (Refs bs)"
    and el: "elemAt h ?l = Some (Sizes ls)"
    and sws: "set ws \<subseteq> {lo..<length h}" and sbs: "set bs \<subseteq> {lo..<length h}"
    and nested: "\<forall>m \<in> set ws. set (refsAt h m) \<subseteq> {lo..<length h}"
    unfolding ownedEngine_def by blast
  let ?is = "ls ! i" and ?os = "ls ! Suc i"
  let ?U = "h[?w := Refs (ws @ [length h]), ?b := Refs (bs @ [Suc (length h)])]"
  let ?C = "layerCells (length h) i ?is ?os"
  let ?h' = "initializeLayer_s this i h"
  have sz: "sizesAt h ?l = ls" using el by (simp add: sizesAt_def)
  have h': "?h' = ?U @ ?C"
    using initializeLayer_s_eq[OF ew eb wb, of i] by (simp add: sz)
  have lenU: "length ?U = length h" by simp
  have lenC: "length ?C = 2 + nat ?is" by (simp add: layerCells_def)
  have len': "length ?h' = length h + 2 + nat ?is" by (simp add: h' lenC)
  have old: "elemAt ?h' m = elemAt h m" if "m < length h" "m \<noteq> ?w" "m \<noteq> ?b" for m
    using that by (simp add: h' elemAt_append_old elemAt_update_other)
  have new: "elemAt ?h' (length h + k) = Some (?C ! k)" if "k < length ?C" for k
    using that by (simp add: h' elemAt_def nth_append)
  have rw': "refsAt ?h' ?w = ws @ [length h]"
    using w lo wb by (simp add: h' refsAt_def elemAt_append_old elemAt_update_other elemAt_update_same)
  have rb': "refsAt ?h' ?b = bs @ [Suc (length h)]"
    using b lo by (simp add: h' refsAt_def elemAt_append_old elemAt_update_same)
  have el': "elemAt ?h' ?l = Some (Sizes ls)"
    using old[of ?l] l lo wl bl el by simp
  have oldrange: "m < length h \<and> m \<noteq> ?w \<and> m \<noteq> ?b" if "m \<in> {lo..<length h}" for m
    using that w b by auto
  have num_old: "numbersAt ?h' m = numbersAt h m" if "m \<in> {lo..<length h}" for m
    using old oldrange[OF that] by (simp add: numbersAt_def)
  have ref_old: "refsAt ?h' m = refsAt h m" if "m \<in> {lo..<length h}" for m
    using old oldrange[OF that] by (simp add: refsAt_def)
  have rnew: "refsAt ?h' (length h) = [length h + 2..<length h + 2 + nat ?is]"
    using new[of 0] by (simp add: refsAt_def layerCells_def)
  have bnew: "numbersAt ?h' (Suc (length h)) = generateBiases ?os"
    using new[of 1] by (simp add: numbersAt_def layerCells_def)
  have rownew: "numbersAt ?h' (length h + 2 + j) = generateNodeWeights i j ?is ?os"
    if "j < nat ?is" for j
  proof -
    have "?C ! (2 + j) = Numbers (generateNodeWeights i j ?is ?os)"
      using that by (simp add: layerCells_def)
    moreover have "elemAt ?h' (length h + (2 + j)) = Some (?C ! (2 + j))"
      by (rule new) (use that lenC in simp)
    ultimately show ?thesis by (simp add: numbersAt_def add.assoc)
  qed
  have mat_old: "matrixAt ?h' m = matrixAt h m" if m: "m \<in> set ws" for m
  proof -
    from m sws have "refsAt ?h' m = refsAt h m" by (intro ref_old) auto
    moreover have "set (refsAt h m) \<subseteq> {lo..<length h}" using nested m by blast
    then have "map (numbersAt ?h') (refsAt h m) = map (numbersAt h) (refsAt h m)"
      by (intro map_cong refl num_old) blast
    ultimately show ?thesis by (simp add: matrixAt_def)
  qed
  have mat_new: "matrixAt ?h' (length h) = generateWeights i ?is ?os"
  proof -
    have "map (numbersAt ?h') [length h + 2..<length h + 2 + nat ?is]
          = map (\<lambda>j. numbersAt ?h' (length h + 2 + j)) [0..<nat ?is]"
      by (rule map_upt_from)
    also have "\<dots> = map (\<lambda>j. generateNodeWeights i j ?is ?os) [0..<nat ?is]"
      by (intro map_cong refl rownew) simp
    finally show ?thesis by (simp add: matrixAt_def rnew generateWeights_rows)
  qed
  have weights': "map (matrixAt ?h') (refsAt ?h' ?w)
                  = map (matrixAt h) ws @ [generateWeights i ?is ?os]"
    using mat_old mat_new by (simp add: rw')
  have biases': "matrixAt ?h' ?b = map (numbersAt h) bs @ [generateBiases ?os]"
  proof -
    have "map (numbersAt ?h') bs = map (numbersAt h) bs"
      using sbs by (intro map_cong refl num_old) auto
    then show ?thesis by (simp add: matrixAt_def rb' bnew)
  qed
  have eng: "engineAt h this
             = \<lparr>weights = map (matrixAt h) ws, biases = map (numbersAt h) bs, layerSizes = ls\<rparr>"
    using ew eb by (simp add: engineAt_def matrixAt_def refsAt_def sz)
  show "engineAt ?h' this = initializeLayer i (engineAt h this)"
    unfolding eng
    by (simp add: engineAt_def weights' biases' sizesAt_def el' initializeLayer_def Let_def)
  have ew': "elemAt ?h' ?w = Some (Refs (ws @ [length h]))"
    using w lo wb by (simp add: h' elemAt_append_old elemAt_update_other elemAt_update_same)
  have eb': "elemAt ?h' ?b = Some (Refs (bs @ [Suc (length h)]))"
    using b lo by (simp add: h' elemAt_append_old elemAt_update_same)
  have s1: "set (ws @ [length h]) \<subseteq> {lo..<length ?h'}" using sws lo len' by auto
  have s2: "set (bs @ [Suc (length h)]) \<subseteq> {lo..<length ?h'}" using sbs lo len' by auto
  have s3: "\<forall>m \<in> set (ws @ [length h]). set (refsAt ?h' m) \<subseteq> {lo..<length ?h'}"
  proof
    fix m assume "m \<in> set (ws @ [length h])"
    then consider "m \<in> set ws" | "m = length h" by auto
    then show "set (refsAt ?h' m) \<subseteq> {lo..<length ?h'}"
    proof cases
      case 1
      with sws have "refsAt ?h' m = refsAt h m" by (intro ref_old) auto
      moreover have "set (refsAt h m) \<subseteq> {lo..<length h}" using nested 1 by blast
      ultimately show ?thesis using len' by auto
    next
      case 2
      with rnew lo len' show ?thesis by auto
    qed
  qed
  have "lo \<le> length ?h'" using lo len' by simp
  with w b l wb wl bl ew' eb' el' s1 s2 s3 show "ownedEngine lo ?h' this"
    unfolding ownedEngine_def by blast
  show "take n ?h' = take n h" if "n \<le> ?w" "n \<le> ?b"
    using that w b lo by (simp add: h')
qed

lemma new_SimpleNeuralNet_s_spec:
  "case new_SimpleNeuralNet_s inputSize hiddenSizes outputSize h of
     (this, h') \<Rightarrow>
       this = \<lparr>weightsRef = length h + 1, biasesRef = length h + 2, layerSizesRef = length h\<rparr> \<and>
       take (length h) h' = h \<and>
       engineAt h' this = new_SimpleNeuralNet inputSize hiddenSizes outputSize \<and>
       ownedEngine (length h + 3) h' this"
proof -
  let ?ls = "[inputSize] @ hiddenSizes @ [outputSize]"
  let ?eng = "\<lparr>weightsRef = length h + 1, biasesRef = length h + 2, layerSizesRef = length h\<rparr>"
  let ?h3 = "h @ [Sizes ?ls, Refs [], Refs []]"
  let ?e0 = "\<lparr>weights = [], biases = [], layerSizes = ?ls\<rparr>"
  let ?lo = "length h + 3"
  let ?R = "\<lambda>h' e. ownedEngine ?lo h' ?eng \<and> engineAt h' ?eng = e \<and> take (length h) h' = h"
  have el: "elemAt ?h3 (length h) = Some (Sizes ?ls)"
    and ew: "elemAt ?h3 (length h + 1) = Some (Refs [])"
    and eb: "elemAt ?h3 (length h + 2) = Some (Refs [])"
    by (simp_all add: elemAt_def nth_append)
  have sz: "sizesAt ?h3 (length h) = ?ls" using el by (simp add: sizesAt_def)
  have new: "new_SimpleNeuralNet_s inputSize hiddenSizes outputSize h
             = (?eng, initializeWeights_s ?eng ?h3)"
    by (simp add: new_SimpleNeuralNet_s_def alloc_def Let_def)
  have init: "?R ?h3 ?e0"
  proof (intro conjI)
    show "ownedEngine ?lo ?h3 ?eng"
      unfolding ownedEngine_def using el ew eb by simp
    show "engineAt ?h3 ?eng = ?e0"
      using el ew eb by (simp add: engineAt_def matrixAt_def refsAt_def sizesAt_def)
    show "take (length h) ?h3 = h" by simp
  qed
  have "?R (fold (initializeLayer_s ?eng) [0..<length ?ls - 1] ?h3)
           (fold initializeLayer [0..<length ?ls - 1] ?e0)"
  proof (rule fold_sim[where R = ?R, OF init])
    fix i h' e assume r: "?R h' e"
    then have o: "ownedEngine ?lo h' ?eng" by simp
    have "ownedEngine ?lo (initializeLayer_s ?eng i h') ?eng"
      by (rule initializeLayer_s_step(1)[OF o])
    moreover have "engineAt (initializeLayer_s ?eng i h') ?eng = initializeLayer i (engineAt h' ?eng)"
      by (rule initializeLayer_s_step(2)[OF o])
    moreover have "take (length h) (initializeLayer_s ?eng i h') = take (length h) h'"
      by (rule initializeLayer_s_step(3)[OF o]) simp_all
    ultimately show "?R (initializeLayer_s ?eng i h') (initializeLayer i e)" using r by simp
  qed
  moreover have bnd: "nat (int (length ?ls) - 1) = length ?ls - 1" by simp
  have lr: "layerSizesRef ?eng = length h" and le: "layerSizes ?e0 = ?ls" by simp_all
  have "initializeWeights_s ?eng ?h3 = fold (initializeLayer_s ?eng) [0..<length ?ls - 1] ?h3"
    unfolding initializeWeights_s_def forLoop_fold by (simp only: lr sz bnd)
  moreover have "new_SimpleNeuralNet inputSize hiddenSizes outputSize
                 = fold initializeLayer [0..<length ?ls - 1] ?e0"
    unfolding new_SimpleNeuralNet_def initializeWeights_def forLoop_fold
    by (simp only: le bnd)
  ultimately show ?thesis unfolding new by simp
qed

subsection \<open>Forward propagation in the store computes what the engine computes\<close>

lemma ownedEngine_closed: "ownedEngine lo h this \<Longrightarrow> engineClosed h this"
  unfolding ownedEngine_def engineClosed_def
  by (fastforce simp: refsAt_def)

lemma elemAt_map: "elemAt (map f xs) i = map_option f (elemAt xs i)"
  by (simp add: elemAt_def)

lemma take_length_le: "take n h' = h \<Longrightarrow> length h = n \<Longrightarrow> n \<le> length h'"
  by (metis length_take min.cobounded1 min.commute)

lemma engine_reads:
  assumes "engineClosed h this" and "take (length h) hk = h"
  shows "refsAt hk (weightsRef this) = refsAt h (weightsRef this)"
    and "i < length (refsAt h (weightsRef this)) \<Longrightarrow>
         map (numbersAt hk) (refsAt hk (refsAt h (weightsRef this) ! i))
         = weights (engineAt h this) ! i"
    and "map_option (numbersAt hk) (elemAt (refsAt hk (biasesRef this)) i)
         = elemAt (biases (engineAt h this)) i"
    and "sizesAt hk (layerSizesRef this) = layerSizes (engineAt h this)"
proof -
  from assms(2) have t: "take (length h) hk = take (length h) h" by simp
  from assms(1) have w: "weightsRef this < length h" and b: "biasesRef this < length h"
    and l: "layerSizesRef this < length h"
    and sw: "set (refsAt h (weightsRef this)) \<subseteq> {..<length h}"
    and sb: "set (refsAt h (biasesRef this)) \<subseteq> {..<length h}"
    and nested: "\<forall>m \<in> set (refsAt h (weightsRef this)). set (refsAt h m) \<subseteq> {..<length h}"
    by (simp_all add: engineClosed_def)
  show rw: "refsAt hk (weightsRef this) = refsAt h (weightsRef this)"
    by (rule refsAt_prefix[OF t w])
  have rb: "refsAt hk (biasesRef this) = refsAt h (biasesRef this)"
    by (rule refsAt_prefix[OF t b])
  show "sizesAt hk (layerSizesRef this) = layerSizes (engineAt h this)"
    using sizesAt_prefix[OF t l] by (simp add: engineAt_def)
  have nb: "map (numbersAt hk) (refsAt h (biasesRef this)) = map (numbersAt h) (refsAt h (biasesRef this))"
    using sb by (intro map_cong refl numbersAt_prefix[OF t]) auto
  show "map_option (numbersAt hk) (elemAt (refsAt hk (biasesRef this)) i)
        = elemAt (biases (engineAt h this)) i"
    by (simp add: engineAt_def matrixAt_def rb elemAt_map[symmetric] nb)
  show "map (numbersAt hk) (refsAt hk (refsAt h (weightsRef this) ! i))
        = weights (engineAt h this) ! i"
    if i: "i < length (refsAt h (weightsRef this))"
  proof -
    let ?m = "refsAt h (weightsRef this) ! i"
    from i have mem: "?m \<in> set (refsAt h (weightsRef this))" by simp
    with sw have m: "?m < length h" by auto
    from nested mem have sub: "set (refsAt h ?m) \<subseteq> {..<length h}" by blast
    have "refsAt hk ?m = refsAt h ?m" by (rule refsAt_prefix[OF t m])
    moreover have "map (numbersAt hk) (refsAt h ?m) = map (numbersAt h) (refsAt h ?m)"
      using sub by (intro map_cong refl numbersAt_prefix[OF t]) auto
    ultimately show ?thesis using i by (simp add: engineAt_def matrixAt_def)
  qed
qed

lemma engineAt_prefix:
  assumes "engineClosed h this" and "take (length h) h' = h"
  shows "engineAt h' this = engineAt h this" and "engineClosed h' this"
proof -
  from assms(2) have t: "take (length h) h' = take (length h) h" by simp
  have len: "length h \<le> length h'" by (rule take_length_le[OF assms(2) refl])
  from assms(1) have w: "weightsRef this < length h" and b: "biasesRef this < length h"
    and l: "layerSizesRef this < length h"
    and sw: "set (refsAt h (weightsRef this)) \<subseteq> {..<length h}"
    and sb: "set (refsAt h (biasesRef this)) \<subseteq> {..<length h}"
    and nested: "\<forall>m \<in> set (refsAt h (weightsRef this)). set (refsAt h m) \<subseteq> {..<length h}"
    by (simp_all add: engineClosed_def)
  have rw: "refsAt h' (weightsRef this) = refsAt h (weightsRef this)"
    by (rule refsAt_prefix[OF t w])
  have rb: "refsAt h' (biasesRef this) = refsAt h (biasesRef this)"
    by (rule refsAt_prefix[OF t b])
  have rm: "refsAt h' m = refsAt h m" if "m \<in> set (refsAt h (weightsRef this))" for m
    using that sw by (intro refsAt_prefix[OF t]) auto
  have "matrixAt h' m = matrixAt h m" if m: "m \<in> set (refsAt h (weightsRef this))" for m
  proof -
    from nested m have "set (refsAt h m) \<subseteq> {..<length h}" by blast
    then have "map (numbersAt h') (refsAt h m) = map (numbersAt h) (refsAt h m)"
      by (intro map_cong refl numbersAt_prefix[OF t]) auto
    then show ?thesis by (simp add: matrixAt_def rm[OF m])
  qed
  then have "map (matrixAt h') (refsAt h (weightsRef this)) = map (matrixAt h) (refsAt h (weightsRef this))"
    by (intro map_cong refl) auto
  moreover have "map (numbersAt h') (refsAt h (biasesRef this)) = map (numbersAt h) (refsAt h (biasesRef this))"
    using sb by (intro map_cong refl numbersAt_prefix[OF t]) auto
  ultimately show "engineAt h' this = engineAt h this"
    by (simp add: engineAt_def matrixAt_def rw rb sizesAt_prefix[OF t l])
  have "set (refsAt h' m) \<subseteq> {..<length h'}" if m: "m \<in> set (refsAt h (weightsRef this))" for m
  proof -
    from nested m have "set (refsAt h m) \<subseteq> {..<length h}" by blast
    with len show ?thesis by (auto simp: rm[OF m])
  qed
  moreover have "set (refsAt h (weightsRef this)) \<subseteq> {..<length h'}" using sw len by auto
  moreover have "set (refsAt h (biasesRef this)) \<subseteq> {..<length h'}" using sb len by auto
  ultimately show "engineClosed h' this"
    unfolding engineClosed_def using w b l len by (simp add: rw rb)
qed

lemma nodeLoop_s_refines:
  assumes "engineClosed h this" and "take (length h) ht = h" and "cur < length ht"
    and "i < length (refsAt h (weightsRef this))"
  shows "rel_sum (\<lambda>(eh :: error \<times> store) e. fst eh = e) (\<lambda>hk nxt. hk = ht @ [Numbers nxt])
           (forLoopE 0 outputCount
              (nodeStep_s cur (refsAt h (weightsRef this) ! i)
                 (elemAt (refsAt (ht @ [Numbers []]) (biasesRef this)) i) (length ht))
              (ht @ [Numbers []]))
           (forLoopE 0 outputCount
              (nodeStep (numbersAt ht cur) (weights (engineAt h this) ! i)
                 (elemAt (biases (engineAt h this)) i)) [])"
proof -
  let ?W = "refsAt h (weightsRef this) ! i"
  let ?B = "elemAt (refsAt (ht @ [Numbers []]) (biasesRef this)) i"
  let ?E = "\<lambda>(eh :: error \<times> store) e. fst eh = e"
  let ?R = "\<lambda>(k::nat) hk nxt. hk = ht @ [Numbers nxt]"
  have len: "length h \<le> length ht" by (rule take_length_le[OF assms(2) refl])
  have pre: "take (length h) (ht @ ext) = h" for ext using assms(2) len by simp
  have "rel_sum ?E (?R (max 0 (nat outputCount)))
          (forLoopE 0 outputCount (nodeStep_s cur ?W ?B (length ht)) (ht @ [Numbers []]))
          (forLoopE 0 outputCount
             (nodeStep (numbersAt ht cur) (weights (engineAt h this) ! i)
                (elemAt (biases (engineAt h this)) i)) [])"
  proof (rule forLoopE_sim[where R = ?R and E = ?E])
    show "?R 0 (ht @ [Numbers []]) []" by simp
  next
    fix k hk nxt assume "?R k hk nxt"
    then have hk: "hk = ht @ [Numbers nxt]" .
    have c: "numbersAt hk cur = numbersAt ht cur"
      using assms(3) by (simp add: hk numbersAt_def elemAt_append_old)
    have w: "map (numbersAt hk) (refsAt hk ?W) = weights (engineAt h this) ! i"
      unfolding hk by (rule engine_reads(2)[OF assms(1) pre assms(4)])
    have "refsAt (ht @ [Numbers []]) (biasesRef this) = refsAt hk (biasesRef this)"
      using assms(1) len
      by (simp add: hk refsAt_def elemAt_append_old engineClosed_def)
    then have b: "map_option (numbersAt hk) ?B = elemAt (biases (engineAt h this)) i"
      using engine_reads(3)[OF assms(1) pre, of "[Numbers nxt]" i] by (simp add: hk)
    show "rel_sum ?E (?R (Suc k))
            (nodeStep_s cur ?W ?B (length ht) k hk)
            (nodeStep (numbersAt ht cur) (weights (engineAt h this) ! i)
               (elemAt (biases (engineAt h this)) i) k nxt)"
      unfolding nodeStep_s_def nodeStep_def c w b
      by (simp add: hk split: sum.splits)
  qed
  then show ?thesis by simp
qed

lemma layerStep_s_refines:
  assumes "engineClosed h this" and "snapshotHolds h (cur, ht) (acts, curv)"
    and "i < length (refsAt h (weightsRef this))"
  shows "rel_sum (\<lambda>(eh :: error \<times> store) e. fst eh = e) (snapshotHolds h)
           (layerStep_s this (length h) i (cur, ht))
           (layerStep (engineAt h this) i (acts, curv))"
proof -
  let ?E = "\<lambda>(eh :: error \<times> store) e. fst eh = e"
  let ?h1 = "ht @ [Numbers []]"
  let ?W = "refsAt h (weightsRef this) ! i"
  let ?B = "elemAt (refsAt ?h1 (biasesRef this)) i"
  let ?n = "case elemAt (layerSizes (engineAt h this)) (i + 1) of None \<Rightarrow> 0 | Some n \<Rightarrow> n"
  let ?loop1 = "forLoopE 0 ?n (nodeStep_s cur ?W ?B (length ht)) ?h1"
  let ?loop2 = "forLoopE 0 ?n (nodeStep curv (weights (engineAt h this) ! i)
                  (elemAt (biases (engineAt h this)) i)) []"
  from assms(2) have pre: "take (length h) ht = h" and len: "length h < length ht"
    and cur: "cur < length ht" and curv: "numbersAt ht cur = curv"
    and acts: "matrixAt ht (length h) = acts"
    and sub: "set (refsAt ht (length h)) \<subseteq> {..<length ht} - {length h}"
    by (simp_all add: snapshotHolds_def)
  have pre1: "take (length h) ?h1 = h" using pre len by simp
  have rw: "refsAt ?h1 (weightsRef this) = refsAt h (weightsRef this)"
    by (rule engine_reads(1)[OF assms(1) pre1])
  have sz: "sizesAt ?h1 (layerSizesRef this) = layerSizes (engineAt h this)"
    by (rule engine_reads(4)[OF assms(1) pre1])
  have s1: "layerStep_s this (length h) i (cur, ht)
            = (case ?loop1 of Inl e \<Rightarrow> Inl e
               | Inr h2 \<Rightarrow> Inr (length ht, pushRef (length h) (length ht) h2))"
    by (simp add: layerStep_s_def alloc_def Let_def rw sz)
  have s2: "layerStep (engineAt h this) i (acts, curv)
            = (case ?loop2 of Inl e \<Rightarrow> Inl e
               | Inr nextActivations \<Rightarrow> Inr (acts @ [nextActivations], nextActivations))"
    by (simp add: layerStep_def Let_def)
  have sim: "rel_sum ?E (\<lambda>hk nxt. hk = ht @ [Numbers nxt]) ?loop1 ?loop2"
    using nodeLoop_s_refines[OF assms(1) pre cur assms(3), of ?n] by (simp add: curv)
  show ?thesis
  proof (cases ?loop1)
    case (Inl eh)
    with sim obtain e where "?loop2 = Inl e" and "fst eh = e"
      by (cases ?loop2) simp_all
    with Inl show ?thesis unfolding s1 s2 by simp
  next
    case (Inr h2)
    with sim obtain nxt where l2: "?loop2 = Inr nxt" and h2: "h2 = ht @ [Numbers nxt]"
      by (cases ?loop2) simp_all
    let ?h' = "pushRef (length h) (length ht) h2"
    have r2: "refsAt h2 (length h) = refsAt ht (length h)"
      using len by (simp add: h2 refsAt_def elemAt_append_old)
    have h': "?h' = ht[length h := Refs (refsAt ht (length h) @ [length ht])] @ [Numbers nxt]"
      using len by (simp add: pushRef_def r2) (simp add: h2 list_update_append)
    have r': "refsAt ?h' (length h) = refsAt ht (length h) @ [length ht]"
      using len by (simp add: h' refsAt_def elemAt_append_old elemAt_update_same)
    have old: "numbersAt ?h' r = numbersAt ht r" if "r \<in> set (refsAt ht (length h))" for r
    proof -
      from that sub have "r < length ht" and "r \<noteq> length h" by auto
      then show ?thesis
        by (simp add: h' numbersAt_def elemAt_append_old elemAt_update_other)
    qed
    have new: "numbersAt ?h' (length ht) = nxt"
      by (simp add: h' numbersAt_def elemAt_def nth_append)
    have "map (numbersAt ?h') (refsAt ht (length h)) = map (numbersAt ht) (refsAt ht (length h))"
      by (intro map_cong refl old)
    also have "\<dots> = acts" using acts by (simp add: matrixAt_def)
    finally have m': "matrixAt ?h' (length h) = acts @ [nxt]"
      by (simp add: matrixAt_def r' new)
    have "snapshotHolds h (length ht, ?h') (acts @ [nxt], nxt)"
      unfolding snapshotHolds_def
      using pre len sub new m' r' by (auto simp: h' )
    with Inr l2 show ?thesis unfolding s1 s2 by simp
  qed
qed

lemma forwardPropagate_s_refines:
  assumes "engineClosed h this" and "inputs < length h"
  shows "snapshotAt (snd (forwardPropagate_s this inputs h)) (fst (forwardPropagate_s this inputs h))
         = forwardPropagate (engineAt h this) (numbersAt h inputs)"
proof -
  let ?E = "\<lambda>(eh :: error \<times> store) e. fst eh = e"
  let ?xs = "numbersAt h inputs"
  let ?h3 = "h @ [Refs [Suc (length h)], Numbers ?xs]"
  let ?bound = "int (length (weights (engineAt h this)))"
  let ?loop1 = "forLoopE 0 ?bound (layerStep_s this (length h)) (inputs, ?h3)"
  let ?loop2 = "forLoopE 0 ?bound (layerStep (engineAt h this)) ([?xs], ?xs)"
  have x: "numbersAt (h @ [Refs []]) inputs = ?xs"
    using assms(2) by (simp add: numbersAt_def elemAt_append_old)
  have a1: "alloc (Refs []) h = (length h, h @ [Refs []])" by (simp add: alloc_def)
  have a2: "alloc (Numbers (numbersAt (h @ [Refs []]) inputs)) (h @ [Refs []])
            = (Suc (length h), h @ [Refs [], Numbers ?xs])"
    by (simp add: alloc_def x)
  have h3: "pushRef (length h) (Suc (length h)) (h @ [Refs [], Numbers ?xs]) = ?h3"
    by (simp add: pushRef_def list_update_append refsAt_def elemAt_def nth_append)
  have pre3: "take (length h) ?h3 = h" by simp
  have bound: "length (refsAt ?h3 (weightsRef this)) = length (weights (engineAt h this))"
    using engine_reads(1)[OF assms(1) pre3] by (simp add: engineAt_def)
  have fp1: "forwardPropagate_s this inputs h
             = (case ?loop1 of Inl (e, h') \<Rightarrow> (Inl e, h') | Inr (cur, h') \<Rightarrow> (Inr (length h), h'))"
    unfolding forwardPropagate_s_def a1 prod.case a2 Let_def h3 bound ..
  have fp2: "forwardPropagate (engineAt h this) ?xs
             = (case ?loop2 of Inl e \<Rightarrow> Inl e | Inr (acts, cur) \<Rightarrow> Inr acts)"
    by (simp add: forwardPropagate_def)
  have init: "snapshotHolds h (inputs, ?h3) ([?xs], ?xs)"
    unfolding snapshotHolds_def using assms(2)
    by (simp add: numbersAt_def refsAt_def matrixAt_def elemAt_def nth_append)
  have sim: "rel_sum ?E (snapshotHolds h) ?loop1 ?loop2"
  proof -
    have "rel_sum ?E ((\<lambda>(i::nat). snapshotHolds h) (max 0 (nat ?bound))) ?loop1 ?loop2"
    proof (rule forLoopE_sim[where R = "\<lambda>(i::nat). snapshotHolds h" and E = ?E])
      show "snapshotHolds h (inputs, ?h3) ([?xs], ?xs)" by (rule init)
    next
      fix i st pst assume i: "int i < ?bound" and r: "snapshotHolds h st pst"
      obtain cur ht where st: "st = (cur, ht)" by (cases st)
      obtain acts curv where pst: "pst = (acts, curv)" by (cases pst)
      from i have i': "i < length (refsAt h (weightsRef this))" by (simp add: engineAt_def)
      from layerStep_s_refines[OF assms(1) r[unfolded st pst] i']
      show "rel_sum ?E (snapshotHolds h) (layerStep_s this (length h) i st)
              (layerStep (engineAt h this) i pst)"
        by (simp add: st pst)
    qed
    then show ?thesis by simp
  qed
  show ?thesis
  proof (cases ?loop1)
    case (Inl eh)
    with sim obtain e where "?loop2 = Inl e" and "fst eh = e" by (cases ?loop2) simp_all
    with Inl show ?thesis unfolding fp1 fp2 by (cases eh) (simp add: snapshotAt_def)
  next
    case (Inr st)
    with sim obtain pst where l2: "?loop2 = Inr pst" and r: "snapshotHolds h st pst"
      by (cases ?loop2) simp_all
    obtain cur h' where st: "st = (cur, h')" by (cases st)
    obtain acts curv where pst: "pst = (acts, curv)" by (cases pst)
    from r have "matrixAt h' (length h) = acts" by (simp add: snapshotHolds_def st pst)
    with Inr l2 show ?thesis unfolding fp1 fp2 by (simp add: st pst snapshotAt_def)
  qed
qed

lemma forwardPropagate_s_frame:
  "take (length h) (snd (forwardPropagate_s this inputs h)) = h"
  using forwardPropagate_s_writes[where this = this and inputs = inputs and h = h]
  by (auto simp: snapshotFresh_def split: prod.splits sum.splits)

lemma constructed_engine:
  assumes "new_SimpleNeuralNet_s inputSize hiddenSizes outputSize h0 = (this, h1)"
  shows "engineAt h1 this = new_SimpleNeuralNet inputSize hiddenSizes outputSize"
    and "engineClosed h1 this" and "take (length h0) h1 = h0"
  using new_SimpleNeuralNet_s_spec[where inputSize = inputSize and hiddenSizes = hiddenSizes
      and outputSize = outputSize and h = h0] assms
  by (auto dest: ownedEngine_closed)

subsection \<open>The range of the activations, over the reals\<close>

text \<open>
  Over the reals the sigmoid lies strictly between 0 and 1, and so does every
  activation after layer 0. This is a fact about the model's real numbers only: the
  source computes in double precision, where \<^verbatim>\<open>1 / (1 + Math.exp(-x))\<close> is exactly 1
  for a large \<open>x\<close> and exactly 0 when \<^verbatim>\<open>Math.exp(-x)\<close> overflows.
\<close>

lemma layerValues_range: "v \<in> set (layerValues cur W B n) \<Longrightarrow> 0 < v \<and> v < 1"
  by (auto simp: layerValues_def sigmoid_pos sigmoid_less_one)

lemma activationsFrom_range:
  "l \<in> set (activationsFrom this is cur) \<Longrightarrow> v \<in> set l \<Longrightarrow> 0 < v \<and> v < 1"
proof (induction "is" arbitrary: cur)
  case Nil
  then show ?case by simp
next
  case (Cons i "is")
  then show ?case by (auto simp: Let_def dest: layerValues_range)
qed

lemma forwardPropagate_range_over_reals:
  assumes "forwardPropagate (new_SimpleNeuralNet inputSize hiddenSizes outputSize) inputs = Inr snapshot"
    and "length inputs \<le> nat inputSize" and "0 < i" and "i < length snapshot"
    and "v \<in> set (snapshot ! i)"
  shows "0 < v \<and> v < 1"
proof -
  let ?net = "new_SimpleNeuralNet inputSize hiddenSizes outputSize"
  from assms(1) forwardPropagate_new[OF disjI1, OF assms(2), of hiddenSizes outputSize]
  have s: "snapshot = inputs # activationsFrom ?net [0..<Suc (length hiddenSizes)] inputs"
    by simp
  from assms(3) obtain m where m: "i = Suc m" by (cases i) simp_all
  with assms(4) s have "snapshot ! i \<in> set (activationsFrom ?net [0..<Suc (length hiddenSizes)] inputs)"
    by (simp del: upt_Suc)
  from activationsFrom_range[OF this assms(5)] show ?thesis .
qed

section \<open>The claims about the engine and the composition\<close>

subsection \<open>C2: override substitution\<close>

text \<open>
  C2. For every input \<open>x\<close> whose length is the first layer size and every override
  \<open>ov\<close> whose length is the last layer size, the composed snapshot's last layer is
  \<open>ov\<close> itself, and every earlier layer is the layer that propagation without an
  override produces. The composition is the effect of the component, which runs the
  singleton engine.
\<close>

theorem override_substitution:
  assumes "int (length x) = getLayerConfig neuralNetEngine ! 0"
    and "int (length ov) = last (getLayerConfig neuralNetEngine)"
  shows "\<exists>composed plain.
           computeNetworkState x (Some ov) = Inr composed \<and>
           computeNetworkState x None = Inr plain \<and>
           forwardPropagate neuralNetEngine x = Inr plain \<and>
           length composed = length plain \<and>
           last composed = ov \<and>
           (\<forall>i < length composed - 1. composed ! i = plain ! i)"
proof -
  let ?plain = "x # activationsFrom neuralNetEngine [0..<3] x"
  from assms have lx: "length x = 64" and lo: "length ov = 10"
    by (simp_all add: getLayerConfig_def neuralNetEngine_def)
  have fp: "forwardPropagate neuralNetEngine x = Inr ?plain"
    by (rule forwardPropagate_engine[OF lx])
  have len: "length ?plain = 4" by simp
  have c1: "computeNetworkState x (Some ov) = Inr (?plain[3 := ov])"
    using lx lo fp by (simp add: computeNetworkState_def)
  have c2: "computeNetworkState x None = Inr ?plain"
    using lx fp by (simp add: computeNetworkState_def)
  have l: "last (?plain[3 := ov]) = ov"
    using len by (subst last_list_update) auto
  have "\<forall>i < length (?plain[3 := ov]) - 1. ?plain[3 := ov] ! i = ?plain ! i"
  proof (intro allI impI)
    fix i assume "i < length (?plain[3 := ov]) - 1"
    then have "i < 3" by (simp only: length_list_update len)
    then have "i \<noteq> 3" by simp
    then show "?plain[3 := ov] ! i = ?plain ! i" by (simp only: nth_list_update_neq not_sym)
  qed
  with c1 c2 fp l show ?thesis
    by (intro exI[of _ "?plain[3 := ov]"] exI[of _ ?plain]) (simp only: length_list_update simp_thms)
qed

theorem override_substitution_witness:
  "int (length (replicate 64 (0::real))) = getLayerConfig neuralNetEngine ! 0 \<and>
   int (length (replicate 10 (1 / 10 :: real))) = last (getLayerConfig neuralNetEngine) \<and>
   (\<exists>composed plain.
      computeNetworkState (replicate 64 0) (Some (replicate 10 (1 / 10))) = Inr composed \<and>
      computeNetworkState (replicate 64 0) None = Inr plain \<and>
      forwardPropagate neuralNetEngine (replicate 64 0) = Inr plain \<and>
      length composed = length plain \<and>
      last composed = replicate 10 (1 / 10) \<and>
      (\<forall>i < length composed - 1. composed ! i = plain ! i))"
proof -
  have h1: "int (length (replicate 64 (0::real))) = getLayerConfig neuralNetEngine ! 0"
    and h2: "int (length (replicate 10 (1 / 10 :: real))) = last (getLayerConfig neuralNetEngine)"
    by (simp_all add: getLayerConfig_def neuralNetEngine_def)
  from override_substitution[OF h1 h2] h1 h2 show ?thesis by blast
qed

subsection \<open>C3: the initialized weights\<close>

text \<open>
  C3. The claim bounds every weight of transition \<open>i\<close> by \<open>1 / sqrt (size i)\<close> in
  absolute value. The source computes \<^verbatim>\<open>Math.sin(seed) * 2 - 1\<close>, which lies between
  \<open>-3\<close> and \<open>1\<close>; in the singleton engine the weight from input node 0 to node 4 of
  the first hidden layer (seed 4, where the sine is negative) is larger in absolute
  value than \<open>1 / sqrt 64\<close>.
\<close>

theorem weight_exceeds_bound:
  "\<bar>weights neuralNetEngine ! 0 ! 0 ! 4\<bar>
     > 1 / sqrt (real_of_int (getLayerConfig neuralNetEngine ! 0))"
proof -
  have "sin (4::real) * 2 - 1 < - 1" using sin_4_neg by simp
  then have "(sin (4::real) * 2 - 1) / sqrt 64 < - 1 / sqrt 64"
    by (simp add: divide_strict_right_mono)
  then have "\<bar>(sin (4::real) * 2 - 1) / sqrt 64\<bar> > 1 / sqrt 64" by linarith
  moreover have "real_of_int (getLayerConfig neuralNetEngine ! 0) = 64"
    by (simp add: getLayerConfig_def neuralNetEngine_def)
  ultimately show ?thesis by (simp only: weights_engine_0_0_4)
qed

subsection \<open>C4: the all-zero input\<close>

text \<open>
  C4, as amended. Propagating the all-zero input of the first layer's length gives,
  for every node of layer 1, the activation \<open>sigmoid (- 0.1)\<close>, which is
  \<open>1 / (1 + exp 0.1)\<close>: the weighted inputs vanish there. (The later layers are fed
  by layer 1, which is not zero.)
\<close>

theorem zero_input_first_layer:
  "\<exists>snapshot.
     forwardPropagate (new_SimpleNeuralNet inputSize hiddenSizes outputSize)
       (replicate (nat inputSize) 0) = Inr snapshot \<and>
     snapshot ! 1
       = replicate (nat (getLayerConfig (new_SimpleNeuralNet inputSize hiddenSizes outputSize) ! 1))
           (sigmoid (- 0.1)) \<and>
     sigmoid (- 0.1) = 1 / (1 + exp 0.1)"
proof -
  let ?net = "new_SimpleNeuralNet inputSize hiddenSizes outputSize"
  let ?x = "replicate (nat inputSize) (0::real)"
  let ?snap = "?x # activationsFrom ?net [0..<Suc (length hiddenSizes)] ?x"
  have fp: "forwardPropagate ?net ?x = Inr ?snap"
    by (rule forwardPropagate_new) simp
  have "[0..<Suc (length hiddenSizes)] = 0 # [1..<Suc (length hiddenSizes)]"
    by (simp add: upt_conv_Cons del: upt_Suc)
  then have "?snap ! 1 = layerValues ?x (weights ?net ! 0) (biases ?net ! 0) (layerSizes ?net ! 1)"
    by (simp add: Let_def del: upt_Suc)
  also have "\<dots> = replicate (nat (getLayerConfig ?net ! 1)) (sigmoid (- 0.1))"
    using layerValues_zero[of "nat inputSize" "weights ?net ! 0" "(hiddenSizes @ [outputSize]) ! 0"]
    by (simp add: biases_new_nth getLayerConfig_def)
  finally have l1: "?snap ! 1 = replicate (nat (getLayerConfig ?net ! 1)) (sigmoid (- 0.1))" .
  have "sigmoid (- 0.1) = 1 / (1 + exp 0.1)" by (simp add: sigmoid_def)
  with fp l1 show ?thesis by blast
qed

text \<open>
  C4 as stated fails for the topology \<open>[4, 2, 3]\<close>: the three output nodes do not all
  have the activation \<open>sigmoid (- 0.1)\<close>.
\<close>

theorem zero_input_counterexample:
  "forwardPropagate (new_SimpleNeuralNet 4 [2] 3) [0, 0, 0, 0]
   \<noteq> Inr [[0, 0, 0, 0],
          [sigmoid (- 0.1), sigmoid (- 0.1)],
          [sigmoid (- 0.1), sigmoid (- 0.1), sigmoid (- 0.1)]]"
proof
  let ?node = "\<lambda>k. sigmoid (weightedSum [sigmoid (- 0.1), sigmoid (- 0.1)]
                          (generateWeights 1 2 3) (generateBiases 3 ! k) k)"
  let ?c = "sigmoid (- 0.1)"
  assume "forwardPropagate (new_SimpleNeuralNet 4 [2] 3) [0, 0, 0, 0]
          = Inr [[0, 0, 0, 0], [?c, ?c], [?c, ?c, ?c]]"
  then have eq: "map ?node [0..<3] = [?c, ?c, ?c]"
    unfolding zero_input_4_2_3 by simp
  have node: "?node k = ?c" if "k < 3" for k
  proof -
    from that have "map ?node [0..<3] ! k = ?node k" by simp
    moreover from that have "[?c, ?c, ?c] ! k = ?c"
      by (auto simp: numeral_3_eq_3 less_Suc_eq)
    ultimately show ?thesis using eq by simp
  qed
  have "sin (1000 + real 0) + sin (1100 + real 0) = 1"
    by (rule second_layer_node[OF _ node]) simp_all
  moreover have "sin (1000 + real 1) + sin (1100 + real 1) = 1"
    by (rule second_layer_node[OF _ node]) simp_all
  moreover have "sin (1000 + real 2) + sin (1100 + real 2) = 1"
    by (rule second_layer_node[OF _ node]) simp_all
  ultimately have "sin (1001 - 1) + sin (1101 - 1) = (1::real)" and "sin 1001 + sin 1101 = (1::real)"
    and "sin (1001 + 1) + sin (1101 + 1) = (1::real)"
    by simp_all
  then show False by (rule three_sines)
qed

subsection \<open>C6: the shape of the snapshot\<close>

text \<open>
  C6. For every input vector whose length is the first layer size (the other sizes
  being non-negative), \<open>forwardPropagate\<close> returns a snapshot with one vector per
  layer, layer 0 is the input vector, and the vector of layer \<open>i\<close> has the length
  the topology gives for layer \<open>i\<close>.
\<close>

theorem shape_invariant:
  assumes "int (length inputs) = inputSize"
    and "\<forall>n \<in> set hiddenSizes. 0 \<le> n" and "0 \<le> outputSize"
  shows "\<exists>snapshot.
           forwardPropagate (new_SimpleNeuralNet inputSize hiddenSizes outputSize) inputs
             = Inr snapshot \<and>
           length snapshot
             = length (getLayerConfig (new_SimpleNeuralNet inputSize hiddenSizes outputSize)) \<and>
           snapshot ! 0 = inputs \<and>
           (\<forall>i < length snapshot.
              int (length (snapshot ! i))
                = getLayerConfig (new_SimpleNeuralNet inputSize hiddenSizes outputSize) ! i)"
proof -
  let ?net = "new_SimpleNeuralNet inputSize hiddenSizes outputSize"
  let ?snap = "inputs # activationsFrom ?net [0..<Suc (length hiddenSizes)] inputs"
  from assms(1) have "length inputs \<le> nat inputSize" by simp
  then have fp: "forwardPropagate ?net inputs = Inr ?snap"
    by (intro forwardPropagate_new disjI1)
  have len: "length ?snap = length (getLayerConfig ?net)"
    by (simp add: getLayerConfig_def)
  have nonneg: "0 \<le> (hiddenSizes @ [outputSize]) ! m" if "m \<le> length hiddenSizes" for m
    using that assms(2,3) by (cases "m < length hiddenSizes") (simp_all add: nth_append)
  have "int (length (?snap ! i)) = getLayerConfig ?net ! i" if i: "i < length ?snap" for i
  proof (cases i)
    case 0
    then show ?thesis using assms(1) by (simp add: getLayerConfig_def)
  next
    case (Suc m)
    with i have m: "m < length [0..<Suc (length hiddenSizes)]" by simp
    then have m': "m \<le> length hiddenSizes" by simp
    have "length (activationsFrom ?net [0..<Suc (length hiddenSizes)] inputs ! m)
          = nat (layerSizes ?net ! ([0..<Suc (length hiddenSizes)] ! m + 1))"
      by (rule length_nth_activationsFrom[OF m])
    also have "[0..<Suc (length hiddenSizes)] ! m = m" using m' by (simp del: upt_Suc)
    finally show ?thesis using Suc nonneg[OF m'] by (simp add: getLayerConfig_def)
  qed
  with fp len show ?thesis by (intro exI[of _ ?snap]) simp
qed

theorem shape_invariant_witness:
  "int (length [0, 0, 0, 0 :: real]) = 4 \<and> (0 :: int) \<le> 2 \<and> (0 :: int) \<le> 3 \<and>
   (\<exists>snapshot.
      forwardPropagate (new_SimpleNeuralNet 4 [2] 3) [0, 0, 0, 0] = Inr snapshot \<and>
      length snapshot = length (getLayerConfig (new_SimpleNeuralNet 4 [2] 3)) \<and>
      snapshot ! 0 = [0, 0, 0, 0] \<and>
      (\<forall>i < length snapshot.
         int (length (snapshot ! i)) = getLayerConfig (new_SimpleNeuralNet 4 [2] 3) ! i))"
proof -
  have h1: "int (length [0, 0, 0, 0 :: real]) = 4" by simp
  have h2: "\<forall>n \<in> set [2 :: int]. 0 \<le> n" by simp
  have h3: "(0 :: int) \<le> 3" by simp
  from shape_invariant[OF h1 h2 h3] h1 show ?thesis by simp
qed

subsection \<open>C7: vectors of the wrong length\<close>

text \<open>
  C7, as amended. The composition reports no shape mismatch and never fails: an input
  whose length is not 64 gives the all-zero snapshot of the topology's shape, whatever
  the override, and an override whose length is not 10 is ignored, so that the result
  is the one for an absent override.
\<close>

theorem shape_mismatch_handling:
  "(length x1 \<noteq> 64 \<longrightarrow>
      computeNetworkState x1 ov
        = Inr [replicate 64 0, replicate 16 0, replicate 12 0, replicate 10 0]) \<and>
   (length x2 = 64 \<and> length p \<noteq> 10 \<longrightarrow>
      computeNetworkState x2 (Some p) = computeNetworkState x2 None \<and>
      computeNetworkState x2 None = forwardPropagate neuralNetEngine x2 \<and>
      \<not> isl (forwardPropagate neuralNetEngine x2))"
proof (intro conjI impI)
  assume "length x1 \<noteq> 64"
  then show "computeNetworkState x1 ov
             = Inr [replicate 64 0, replicate 16 0, replicate 12 0, replicate 10 0]"
    by (simp add: computeNetworkState_wrong_input zeroState_engine)
next
  assume a: "length x2 = 64 \<and> length p \<noteq> 10"
  then show "computeNetworkState x2 (Some p) = computeNetworkState x2 None"
    by (simp add: computeNetworkState_wrong_override)
  from a show "computeNetworkState x2 None = forwardPropagate neuralNetEngine x2"
    by (simp add: computeNetworkState_None)
  from a show "\<not> isl (forwardPropagate neuralNetEngine x2)"
    by (simp add: forwardPropagate_engine)
qed

theorem shape_mismatch_handling_witness:
  "length ([] :: real list) \<noteq> 64 \<and>
   computeNetworkState [] (Some [1])
     = Inr [replicate 64 0, replicate 16 0, replicate 12 0, replicate 10 0] \<and>
   length (replicate 64 (0::real)) = 64 \<and> length [1::real] \<noteq> 10 \<and>
   computeNetworkState (replicate 64 0) (Some [1]) = computeNetworkState (replicate 64 0) None \<and>
   \<not> isl (forwardPropagate neuralNetEngine (replicate 64 0))"
  using shape_mismatch_handling[of "[]" "Some [1]" "replicate 64 0" "[1]"]
  by simp

text \<open>
  C7 as stated fails: the composition returns the all-zero snapshot for the empty
  input, and for a 64-value input it does not fail on the empty override and returns
  what it returns without an override.
\<close>

theorem shape_mismatch_counterexample:
  "computeNetworkState [] None
     = Inr [replicate 64 0, replicate 16 0, replicate 12 0, replicate 10 0] \<and>
   \<not> isl (computeNetworkState (replicate 64 0) (Some [])) \<and>
   computeNetworkState (replicate 64 0) (Some []) = computeNetworkState (replicate 64 0) None"
proof -
  have "computeNetworkState [] None = zeroState (getLayerConfig neuralNetEngine)"
    by (rule computeNetworkState_wrong_input) simp
  moreover have "computeNetworkState (replicate 64 0) (Some [])
                 = computeNetworkState (replicate 64 0) None"
    by (rule computeNetworkState_wrong_override) simp_all
  moreover have "\<not> isl (computeNetworkState (replicate 64 0) None)"
    by (simp add: computeNetworkState_None forwardPropagate_engine)
  ultimately show ?thesis by (simp add: zeroState_engine)
qed

subsection \<open>C8: the constructor and invalid topologies\<close>

text \<open>
  C8, as amended. The constructor validates nothing and returns an engine for all
  arguments: its topology is the input size, the hidden sizes and the output size in
  this order (at least two layers), there is one weight matrix and one bias vector per
  transition, and a layer of non-positive size has no nodes.
\<close>

theorem constructor_never_validates:
  "layerSizes (new_SimpleNeuralNet inputSize hiddenSizes outputSize)
     = inputSize # hiddenSizes @ [outputSize] \<and>
   2 \<le> length (layerSizes (new_SimpleNeuralNet inputSize hiddenSizes outputSize)) \<and>
   length (weights (new_SimpleNeuralNet inputSize hiddenSizes outputSize))
     = length hiddenSizes + 1 \<and>
   length (biases (new_SimpleNeuralNet inputSize hiddenSizes outputSize))
     = length hiddenSizes + 1 \<and>
   (\<forall>i \<le> length hiddenSizes.
      length (weights (new_SimpleNeuralNet inputSize hiddenSizes outputSize) ! i)
        = nat ((inputSize # hiddenSizes @ [outputSize]) ! i) \<and>
      length (biases (new_SimpleNeuralNet inputSize hiddenSizes outputSize) ! i)
        = nat ((inputSize # hiddenSizes @ [outputSize]) ! (i + 1)) \<and>
      (\<forall>row \<in> set (weights (new_SimpleNeuralNet inputSize hiddenSizes outputSize) ! i).
         length row = nat ((inputSize # hiddenSizes @ [outputSize]) ! (i + 1))))"
  by (auto simp: weights_new_nth biases_new_nth generateWeights_eq generateBiases_eq)

theorem constructor_never_validates_witness:
  "layerSizes (new_SimpleNeuralNet (- 1) [0] 2) = [- 1, 0, 2] \<and>
   length (weights (new_SimpleNeuralNet (- 1) [0] 2)) = 2 \<and>
   length (weights (new_SimpleNeuralNet (- 1) [0] 2) ! 1) = 0 \<and>
   length (biases (new_SimpleNeuralNet (- 1) [0] 2) ! 1) = 2 \<and>
   length (biases (new_SimpleNeuralNet (- 1) [0] 2) ! 0) = 0"
  using constructor_never_validates[of "- 1" "[0]" 2] by (auto simp: numeral_2_eq_2)

text \<open>
  C8 as stated fails: the sizes \<open>0\<close> and \<open>- 3\<close> are not positive, and the constructor
  returns an engine for them.
\<close>

theorem constructor_accepts_invalid_topology:
  "new_SimpleNeuralNet 0 [] (- 3) = \<lparr>weights = [[]], biases = [[]], layerSizes = [0, - 3]\<rparr>"
  by (simp add: new_SimpleNeuralNet_eq generateWeights_eq generateBiases_eq)

subsection \<open>C10: the singleton's topology\<close>

text \<open>
  C10. The singleton engine has the topology \<open>[64, 16, 12, 10]\<close>: its first layer has
  the 64 values of the grid and its last layer the 10 values of the override.
\<close>

theorem singleton_topology:
  "getLayerConfig neuralNetEngine = [64, 16, 12, 10] \<and>
   getLayerConfig neuralNetEngine ! 0 = 64 \<and>
   last (getLayerConfig neuralNetEngine) = 10"
  by (simp add: getLayerConfig_def neuralNetEngine_def)

section \<open>The claims about state and sharing\<close>

subsection \<open>C1: determinism\<close>

text \<open>
  C1. Two constructions of the engine with the same sizes, in any two stores, build
  the same weight matrices, bias vectors and layer sizes; and two calls of
  \<open>forwardPropagate\<close> on one engine with the same input array, the second in the store
  the first has left, return snapshots with the same contents, which are the values
  \<open>forwardPropagate\<close> computes from the sizes and the input alone.
\<close>

theorem engine_determinism:
  assumes "new_SimpleNeuralNet_s inputSize hiddenSizes outputSize ha = (thisA, ha')"
    and "new_SimpleNeuralNet_s inputSize hiddenSizes outputSize hb = (thisB, hb')"
    and "take (length ha') h = ha'" and "inputs < length h"
    and "forwardPropagate_s thisA inputs h = (r1, h1)"
    and "forwardPropagate_s thisA inputs h1 = (r2, h2)"
  shows "engineAt ha' thisA = engineAt hb' thisB \<and>
         snapshotAt h1 r1 = snapshotAt h2 r2 \<and>
         snapshotAt h1 r1
           = forwardPropagate (new_SimpleNeuralNet inputSize hiddenSizes outputSize)
               (numbersAt h inputs)"
proof -
  note a = constructed_engine[OF assms(1)] and b = constructed_engine[OF assms(2)]
  have eh: "engineAt h thisA = engineAt ha' thisA" and ch: "engineClosed h thisA"
    using engineAt_prefix[OF a(2) assms(3)] by simp_all
  have s1: "snapshotAt h1 r1 = forwardPropagate (engineAt h thisA) (numbersAt h inputs)"
    using forwardPropagate_s_refines[OF ch assms(4)] assms(5) by simp
  have frame: "take (length h) h1 = h"
    using forwardPropagate_s_frame[of h thisA inputs] assms(5) by simp
  then have t: "take (length h) h1 = take (length h) h" by simp
  have len: "length h \<le> length h1" by (rule take_length_le[OF frame refl])
  have e1: "engineAt h1 thisA = engineAt h thisA" and c1: "engineClosed h1 thisA"
    using engineAt_prefix[OF ch frame] by simp_all
  have x1: "numbersAt h1 inputs = numbersAt h inputs"
    by (rule numbersAt_prefix[OF t assms(4)])
  have i1: "inputs < length h1" using assms(4) len by simp
  have s2: "snapshotAt h2 r2 = forwardPropagate (engineAt h1 thisA) (numbersAt h1 inputs)"
    using forwardPropagate_s_refines[OF c1 i1] assms(6) by simp
  from s1 s2 show ?thesis by (simp add: e1 x1 eh a(1) b(1))
qed

theorem engine_determinism_witness:
  "new_SimpleNeuralNet_s 4 [2] 3 []
     = (fst (new_SimpleNeuralNet_s 4 [2] 3 []), snd (new_SimpleNeuralNet_s 4 [2] 3 [])) \<and>
   new_SimpleNeuralNet_s 4 [2] 3 [Numbers [1]]
     = (fst (new_SimpleNeuralNet_s 4 [2] 3 [Numbers [1]]),
        snd (new_SimpleNeuralNet_s 4 [2] 3 [Numbers [1]])) \<and>
   length (snd (new_SimpleNeuralNet_s 4 [2] 3 []))
     < length (snd (new_SimpleNeuralNet_s 4 [2] 3 []) @ [Numbers [0, 0, 0, 0]]) \<and>
   engineAt (snd (new_SimpleNeuralNet_s 4 [2] 3 [])) (fst (new_SimpleNeuralNet_s 4 [2] 3 []))
     = engineAt (snd (new_SimpleNeuralNet_s 4 [2] 3 [Numbers [1]]))
         (fst (new_SimpleNeuralNet_s 4 [2] 3 [Numbers [1]])) \<and>
   snapshotAt
     (snd (forwardPropagate_s (fst (new_SimpleNeuralNet_s 4 [2] 3 []))
             (length (snd (new_SimpleNeuralNet_s 4 [2] 3 [])))
             (snd (new_SimpleNeuralNet_s 4 [2] 3 []) @ [Numbers [0, 0, 0, 0]])))
     (fst (forwardPropagate_s (fst (new_SimpleNeuralNet_s 4 [2] 3 []))
             (length (snd (new_SimpleNeuralNet_s 4 [2] 3 [])))
             (snd (new_SimpleNeuralNet_s 4 [2] 3 []) @ [Numbers [0, 0, 0, 0]])))
     = forwardPropagate (new_SimpleNeuralNet 4 [2] 3) [0, 0, 0, 0]"
proof -
  let ?c = "new_SimpleNeuralNet_s 4 [2] 3 []"
  let ?d = "new_SimpleNeuralNet_s 4 [2] 3 [Numbers [1]]"
  let ?h = "snd ?c @ [Numbers [0, 0, 0, 0]]"
  let ?fp = "forwardPropagate_s (fst ?c) (length (snd ?c)) ?h"
  let ?fp2 = "forwardPropagate_s (fst ?c) (length (snd ?c)) (snd ?fp)"
  have h1: "?c = (fst ?c, snd ?c)" by simp
  have h2: "?d = (fst ?d, snd ?d)" by simp
  have h3: "take (length (snd ?c)) ?h = snd ?c" by simp
  have h4: "length (snd ?c) < length ?h" by simp
  have h5: "?fp = (fst ?fp, snd ?fp)" by simp
  have h6: "?fp2 = (fst ?fp2, snd ?fp2)" by simp
  have x: "numbersAt ?h (length (snd ?c)) = [0, 0, 0, 0]" by simp
  from engine_determinism[OF h1 h2 h3 h4 h5 h6] h1 h2 h4 show ?thesis unfolding x by blast
qed

subsection \<open>C9: purity and frame\<close>

text \<open>
  C9. A call of \<open>forwardPropagate\<close> on a constructed engine, in any store \<open>h\<close> that still
  holds what the constructor built, changes no array that existed before the call:
  the store \<open>h'\<close> after the call starts with \<open>h\<close>. So the engine's weights, biases and
  layer sizes are after the call, and after a later call in any store \<open>g\<close> that still
  holds \<open>h'\<close>, what they were after construction, and the input array and the
  snapshots of earlier calls are unchanged. The call allocates, whether it returns or
  throws, and its result is what \<open>forwardPropagate\<close> computes from the sizes and the
  input. A returned snapshot is a new array of arrays that is in the store after the
  call; the layer arrays it refers to are new, distinct arrays of numbers in the
  store (the engine's arrays all lie in the store the constructor left); the later
  call leaves the snapshot and its layer arrays as they are, and the snapshot it
  returns is another array with other layer arrays.
\<close>

theorem forwardPropagate_frame:
  assumes "new_SimpleNeuralNet_s inputSize hiddenSizes outputSize h0 = (this, h1)"
    and "take (length h1) h = h1"
    and "forwardPropagate_s this inputs h = (r, h')"
    and "take (length h') g = h'"
    and "forwardPropagate_s this inputs2 g = (r2, g')"
  shows "take (length h) h' = h \<and> take (length h1) h' = h1 \<and>
         engineAt h' this = engineAt h1 this \<and>
         engineAt h' this = new_SimpleNeuralNet inputSize hiddenSizes outputSize \<and>
         engineAt g' this = new_SimpleNeuralNet inputSize hiddenSizes outputSize \<and>
         engineClosed h1 this \<and> length h1 \<le> length h \<and> length h + 2 \<le> length h' \<and>
         (inputs < length h \<longrightarrow>
            snapshotAt h' r
              = forwardPropagate (new_SimpleNeuralNet inputSize hiddenSizes outputSize)
                  (numbersAt h inputs)) \<and>
         snapshotAt g' r = snapshotAt h' r \<and>
         (\<forall>a. r = Inr a \<longrightarrow>
            a = length h \<and> a < length h' \<and>
            elemAt h' a = Some (Refs (refsAt h' a)) \<and> refsAt h' a \<noteq> [] \<and>
            set (refsAt h' a) \<subseteq> {length h<..<length h'} \<and> distinct (refsAt h' a) \<and>
            (\<forall>l \<in> set (refsAt h' a). elemAt h' l = Some (Numbers (numbersAt h' l))) \<and>
            elemAt g' a = elemAt h' a \<and>
            (\<forall>l \<in> set (refsAt h' a). elemAt g' l = elemAt h' l) \<and>
            (\<forall>a2. r2 = Inr a2 \<longrightarrow>
               a2 \<noteq> a \<and> a2 < length g' \<and> a2 \<notin> set (refsAt g' a) \<and>
               a \<notin> set (refsAt g' a2) \<and> set (refsAt g' a) \<inter> set (refsAt g' a2) = {}))"
proof -
  note w1 = forwardPropagate_s_writes[where this = this and inputs = inputs and h = h]
  note w2 = forwardPropagate_s_writes[where this = this and inputs = inputs2 and h = g]
  have frame: "take (length h) h' = h"
    using forwardPropagate_s_frame[of h this inputs] assms(3) by simp
  have grow: "length h + 2 \<le> length h'"
    using w1 assms(3) by (auto simp: snapshotFresh_def split: sum.splits)
  have len: "length h1 \<le> length h" by (rule take_length_le[OF assms(2) refl])
  have t1: "take (length h1) h' = h1"
    using take_take_le[OF len, of h' h] frame assms(2) by simp
  note c = constructed_engine[OF assms(1)]
  have e: "engineAt h' this = engineAt h1 this" by (rule engineAt_prefix(1)[OF c(2) t1])
  have frame2: "take (length g) g' = g"
    using forwardPropagate_s_frame[of g this inputs2] assms(5) by simp
  have lg: "length h' \<le> length g" by (rule take_length_le[OF assms(4) refl])
  have tg: "take (length h') g' = take (length h') h'"
    using take_take_le[OF lg, of g' g] frame2 assms(4) by simp
  have l1: "length h1 \<le> length h'" using len grow by simp
  have "take (length h1) g' = take (length h1) h'" by (rule take_take_le[OF l1 tg])
  then have t1g: "take (length h1) g' = h1" using t1 by simp
  have eg: "engineAt g' this = engineAt h1 this" by (rule engineAt_prefix(1)[OF c(2) t1g])
  have ch: "engineClosed h this" by (rule engineAt_prefix(2)[OF c(2) assms(2)])
  have eh: "engineAt h this = engineAt h1 this" by (rule engineAt_prefix(1)[OF c(2) assms(2)])
  have refine: "inputs < length h \<longrightarrow>
            snapshotAt h' r
              = forwardPropagate (new_SimpleNeuralNet inputSize hiddenSizes outputSize)
                  (numbersAt h inputs)"
    using forwardPropagate_s_refines[OF ch, of inputs] assms(3) by (simp add: eh c(1))
  have keep: "elemAt g' x = elemAt h' x" if "x < length h'" for x
    by (rule elemAt_prefix[OF tg that])
  have fresh: "a = length h \<and> a < length h' \<and>
            elemAt h' a = Some (Refs (refsAt h' a)) \<and> refsAt h' a \<noteq> [] \<and>
            set (refsAt h' a) \<subseteq> {length h<..<length h'} \<and> distinct (refsAt h' a) \<and>
            (\<forall>l \<in> set (refsAt h' a). elemAt h' l = Some (Numbers (numbersAt h' l)))"
    if "r = Inr a" for a
    using w1 assms(3) that grow by (auto simp: snapshotFresh_def)
  have same: "snapshotAt g' r = snapshotAt h' r"
  proof (cases r)
    case (Inl e)
    then show ?thesis by (simp add: snapshotAt_def)
  next
    case (Inr a)
    from fresh[OF Inr] have a: "a < length h'"
      and sub: "set (refsAt h' a) \<subseteq> {length h<..<length h'}" by blast+
    have ra: "refsAt g' a = refsAt h' a" by (rule refsAt_prefix[OF tg a])
    have "map (numbersAt g') (refsAt h' a) = map (numbersAt h') (refsAt h' a)"
      using sub by (intro map_cong refl numbersAt_prefix[OF tg]) auto
    then show ?thesis by (simp add: Inr snapshotAt_def matrixAt_def ra)
  qed
  have apart: "a2 \<noteq> a \<and> a2 < length g' \<and> a2 \<notin> set (refsAt g' a) \<and>
               a \<notin> set (refsAt g' a2) \<and> set (refsAt g' a) \<inter> set (refsAt g' a2) = {}"
    if ra: "r = Inr a" and r2: "r2 = Inr a2" for a a2
  proof -
    from fresh[OF ra] have a: "a < length h'"
      and sub: "set (refsAt h' a) \<subseteq> {length h<..<length h'}" by blast+
    have rga: "refsAt g' a = refsAt h' a" by (rule refsAt_prefix[OF tg a])
    from w2 assms(5) r2 have a2: "a2 = length g" and f2: "snapshotFresh g g'" by auto
    from f2 have g2: "length g + 2 \<le> length g'"
      and sub2: "set (refsAt g' (length g)) \<subseteq> {Suc (length g)..<length g'}"
      by (simp_all add: snapshotFresh_def)
    have "a2 \<noteq> a" using a2 a lg by simp
    moreover have "a2 < length g'" using a2 g2 by simp
    moreover have "a2 \<notin> set (refsAt g' a)" using sub lg by (auto simp: rga a2)
    moreover have "a \<notin> set (refsAt g' a2)" using sub2 a lg by (auto simp: a2)
    moreover have "set (refsAt g' a) \<inter> set (refsAt g' a2) = {}"
    proof -
      have "False" if x1: "x \<in> set (refsAt h' a)" and x2: "x \<in> set (refsAt g' (length g))" for x
      proof -
        from sub x1 have "x < length h'" by auto
        moreover from sub2 x2 have "Suc (length g) \<le> x" by auto
        ultimately show False using lg by simp
      qed
      then show ?thesis unfolding rga a2 by blast
    qed
    ultimately show ?thesis by simp
  qed
  have all: "\<forall>a. r = Inr a \<longrightarrow>
            a = length h \<and> a < length h' \<and>
            elemAt h' a = Some (Refs (refsAt h' a)) \<and> refsAt h' a \<noteq> [] \<and>
            set (refsAt h' a) \<subseteq> {length h<..<length h'} \<and> distinct (refsAt h' a) \<and>
            (\<forall>l \<in> set (refsAt h' a). elemAt h' l = Some (Numbers (numbersAt h' l))) \<and>
            elemAt g' a = elemAt h' a \<and>
            (\<forall>l \<in> set (refsAt h' a). elemAt g' l = elemAt h' l) \<and>
            (\<forall>a2. r2 = Inr a2 \<longrightarrow>
               a2 \<noteq> a \<and> a2 < length g' \<and> a2 \<notin> set (refsAt g' a) \<and>
               a \<notin> set (refsAt g' a2) \<and> set (refsAt g' a) \<inter> set (refsAt g' a2) = {})"
  proof (intro allI impI)
    fix a assume ra: "r = Inr a"
    note f = fresh[OF ra]
    from f have a: "a < length h'"
      and sub: "set (refsAt h' a) \<subseteq> {length h<..<length h'}" by blast+
    have k1: "elemAt g' a = elemAt h' a" by (rule keep[OF a])
    have k2: "\<forall>l \<in> set (refsAt h' a). elemAt g' l = elemAt h' l"
    proof
      fix l assume "l \<in> set (refsAt h' a)"
      with sub have "l < length h'" by auto
      then show "elemAt g' l = elemAt h' l" by (rule keep)
    qed
    have k3: "\<forall>a2. r2 = Inr a2 \<longrightarrow>
               a2 \<noteq> a \<and> a2 < length g' \<and> a2 \<notin> set (refsAt g' a) \<and>
               a \<notin> set (refsAt g' a2) \<and> set (refsAt g' a) \<inter> set (refsAt g' a2) = {}"
      using apart[OF ra] by blast
    from f k1 k2 k3
    show "a = length h \<and> a < length h' \<and>
            elemAt h' a = Some (Refs (refsAt h' a)) \<and> refsAt h' a \<noteq> [] \<and>
            set (refsAt h' a) \<subseteq> {length h<..<length h'} \<and> distinct (refsAt h' a) \<and>
            (\<forall>l \<in> set (refsAt h' a). elemAt h' l = Some (Numbers (numbersAt h' l))) \<and>
            elemAt g' a = elemAt h' a \<and>
            (\<forall>l \<in> set (refsAt h' a). elemAt g' l = elemAt h' l) \<and>
            (\<forall>a2. r2 = Inr a2 \<longrightarrow>
               a2 \<noteq> a \<and> a2 < length g' \<and> a2 \<notin> set (refsAt g' a) \<and>
               a \<notin> set (refsAt g' a2) \<and> set (refsAt g' a) \<inter> set (refsAt g' a2) = {})"
      by blast
  qed
  have e2: "engineAt h' this = new_SimpleNeuralNet inputSize hiddenSizes outputSize"
    using e c(1) by simp
  have eg2: "engineAt g' this = new_SimpleNeuralNet inputSize hiddenSizes outputSize"
    using eg c(1) by simp
  show ?thesis by (intro conjI frame t1 e e2 eg2 c(2) len grow refine same all)
qed

theorem forwardPropagate_frame_witness:
  "new_SimpleNeuralNet_s 4 [2] 3 []
     = (fst (new_SimpleNeuralNet_s 4 [2] 3 []), snd (new_SimpleNeuralNet_s 4 [2] 3 [])) \<and>
   take (length (snd (new_SimpleNeuralNet_s 4 [2] 3 [])))
     (snd (new_SimpleNeuralNet_s 4 [2] 3 []) @ [Numbers [0, 0, 0, 0]])
     = snd (new_SimpleNeuralNet_s 4 [2] 3 []) \<and>
   length (snd (new_SimpleNeuralNet_s 4 [2] 3 []))
     < length (snd (new_SimpleNeuralNet_s 4 [2] 3 []) @ [Numbers [0, 0, 0, 0]]) \<and>
   take (length (snd (new_SimpleNeuralNet_s 4 [2] 3 []) @ [Numbers [0, 0, 0, 0]]))
     (snd (forwardPropagate_s (fst (new_SimpleNeuralNet_s 4 [2] 3 []))
             (length (snd (new_SimpleNeuralNet_s 4 [2] 3 [])))
             (snd (new_SimpleNeuralNet_s 4 [2] 3 []) @ [Numbers [0, 0, 0, 0]])))
     = snd (new_SimpleNeuralNet_s 4 [2] 3 []) @ [Numbers [0, 0, 0, 0]] \<and>
   snapshotAt
     (snd (forwardPropagate_s (fst (new_SimpleNeuralNet_s 4 [2] 3 []))
             (length (snd (new_SimpleNeuralNet_s 4 [2] 3 [])))
             (snd (new_SimpleNeuralNet_s 4 [2] 3 []) @ [Numbers [0, 0, 0, 0]])))
     (fst (forwardPropagate_s (fst (new_SimpleNeuralNet_s 4 [2] 3 []))
             (length (snd (new_SimpleNeuralNet_s 4 [2] 3 [])))
             (snd (new_SimpleNeuralNet_s 4 [2] 3 []) @ [Numbers [0, 0, 0, 0]])))
     = forwardPropagate (new_SimpleNeuralNet 4 [2] 3) [0, 0, 0, 0] \<and>
   engineAt
     (snd (forwardPropagate_s (fst (new_SimpleNeuralNet_s 4 [2] 3 []))
             (length (snd (new_SimpleNeuralNet_s 4 [2] 3 [])))
             (snd (forwardPropagate_s (fst (new_SimpleNeuralNet_s 4 [2] 3 []))
                     (length (snd (new_SimpleNeuralNet_s 4 [2] 3 [])))
                     (snd (new_SimpleNeuralNet_s 4 [2] 3 []) @ [Numbers [0, 0, 0, 0]])))))
     (fst (new_SimpleNeuralNet_s 4 [2] 3 []))
     = new_SimpleNeuralNet 4 [2] 3 \<and>
   (\<exists>a a2.
      fst (forwardPropagate_s (fst (new_SimpleNeuralNet_s 4 [2] 3 []))
             (length (snd (new_SimpleNeuralNet_s 4 [2] 3 [])))
             (snd (new_SimpleNeuralNet_s 4 [2] 3 []) @ [Numbers [0, 0, 0, 0]])) = Inr a \<and>
      fst (forwardPropagate_s (fst (new_SimpleNeuralNet_s 4 [2] 3 []))
             (length (snd (new_SimpleNeuralNet_s 4 [2] 3 [])))
             (snd (forwardPropagate_s (fst (new_SimpleNeuralNet_s 4 [2] 3 []))
                     (length (snd (new_SimpleNeuralNet_s 4 [2] 3 [])))
                     (snd (new_SimpleNeuralNet_s 4 [2] 3 []) @ [Numbers [0, 0, 0, 0]])))) = Inr a2 \<and>
      a = length (snd (new_SimpleNeuralNet_s 4 [2] 3 []) @ [Numbers [0, 0, 0, 0]]) \<and>
      a < length (snd (forwardPropagate_s (fst (new_SimpleNeuralNet_s 4 [2] 3 []))
                        (length (snd (new_SimpleNeuralNet_s 4 [2] 3 [])))
                        (snd (new_SimpleNeuralNet_s 4 [2] 3 []) @ [Numbers [0, 0, 0, 0]]))) \<and>
      a2 \<noteq> a)"
proof -
  let ?c = "new_SimpleNeuralNet_s 4 [2] 3 []"
  let ?h = "snd ?c @ [Numbers [0, 0, 0, 0]]"
  let ?i = "length (snd ?c)"
  let ?fp = "forwardPropagate_s (fst ?c) ?i ?h"
  let ?fp2 = "forwardPropagate_s (fst ?c) ?i (snd ?fp)"
  let ?fp3 = "forwardPropagate_s (fst ?c) ?i (snd ?fp2)"
  let ?pure = "forwardPropagate (new_SimpleNeuralNet 4 [2] 3) [0, 0, 0, 0]"
  have h1: "?c = (fst ?c, snd ?c)" by simp
  have h2: "take (length (snd ?c)) ?h = snd ?c" by simp
  have h3: "?fp = (fst ?fp, snd ?fp)" by simp
  have h4: "take (length (snd ?fp)) (snd ?fp) = snd ?fp" by simp
  have h5: "?fp2 = (fst ?fp2, snd ?fp2)" by simp
  have h6: "take (length (snd ?fp2)) (snd ?fp2) = snd ?fp2" by simp
  have h7: "?fp3 = (fst ?fp3, snd ?fp3)" by simp
  have i: "?i < length ?h" by simp
  have x: "numbersAt ?h ?i = [0, 0, 0, 0]" by simp
  note first = forwardPropagate_frame[OF h1 h2 h3 h4 h5]
  from first have t: "take (length ?h) (snd ?fp) = ?h"
    and t1: "take (length (snd ?c)) (snd ?fp) = snd ?c"
    and grow: "length ?h + 2 \<le> length (snd ?fp)"
    and eg: "engineAt (snd ?fp2) (fst ?c) = new_SimpleNeuralNet 4 [2] 3"
    by blast+
  from first i x have s1: "snapshotAt (snd ?fp) (fst ?fp) = ?pure" by simp
  note second = forwardPropagate_frame[OF h1 t1 h5 h6 h7]
  from t have t': "take (length ?h) (snd ?fp) = take (length ?h) ?h" by simp
  have x2: "numbersAt (snd ?fp) ?i = [0, 0, 0, 0]"
    using numbersAt_prefix[OF t' i] x by simp
  have i2: "?i < length (snd ?fp)" using grow by simp
  from second i2 x2 have s2: "snapshotAt (snd ?fp2) (fst ?fp2) = ?pure" by simp
  have "\<not> isl ?pure"
    using forwardPropagate_new[of "[0, 0, 0, 0]" 4 "[2]" 3] by simp
  then have "\<not> isl (snapshotAt (snd ?fp) (fst ?fp))"
    and "\<not> isl (snapshotAt (snd ?fp2) (fst ?fp2))"
    by (simp_all only: s1 s2 not_False_eq_True)
  then have "\<not> isl (fst ?fp)" and "\<not> isl (fst ?fp2)"
    by (simp_all add: snapshotAt_def split: sum.splits)
  then obtain a a2 where a: "fst ?fp = Inr a" and a2: "fst ?fp2 = Inr a2"
    by (metis sum.collapse(2))
  from first a a2 have "a = length ?h \<and> a < length (snd ?fp) \<and> a2 \<noteq> a" by blast
  with a a2 have "\<exists>a a2. fst ?fp = Inr a \<and> fst ?fp2 = Inr a2 \<and> a = length ?h \<and>
                    a < length (snd ?fp) \<and> a2 \<noteq> a" by blast
  with h1 h2 i t s1 eg show ?thesis by blast
qed

end
